theory Spec2Isabelle
  imports Main
begin

section \<open>Slot generation (schedule.service.ts)\<close>

text \<open>
  Instants are the millisecond counts of JavaScript's \<open>Date.getTime()\<close>. A \<open>Date\<close>
  reads the host's time zone in two ways, and both are parameters of the model:
  \<open>getTimezoneOffset zone t\<close> is \<open>Date.getTimezoneOffset()\<close> of the date with time
  value \<open>t\<close> (whole minutes, UTC minus local time; it depends on the date when the zone
  has daylight saving), and \<open>UTC zone l\<close> is the instant that the host takes for the local
  clock reading \<open>l\<close> (milliseconds on the local clock, counted like a time value) when a
  setter of local fields writes a date back. Nothing is assumed about either function.
  Rows of the \<open>schedules\<close> table carry the three columns the generator reads and writes;
  the identifier that the schema fills with a fresh uuid is a number not yet in the table.
\<close>

type_synonym instant = int

record Zone =
  getTimezoneOffset :: "instant \<Rightarrow> int"
  UTC :: "int \<Rightarrow> instant"

text \<open>
  The local clock reading of an instant, from which the getters of local fields
  (\<open>getMinutes\<close>, \<open>getDate\<close>, and the fields that \<open>format\<close> prints) are taken.
\<close>

definition LocalTime :: "Zone \<Rightarrow> instant \<Rightarrow> int" where
  "LocalTime zone t = t - getTimezoneOffset zone t * 60000"

text \<open>
  \<open>date.setMinutes(date.getMinutes() + n)\<close> and \<open>date.setDate(date.getDate() + n)\<close>:
  the local clock reading is moved by \<open>n\<close> minutes, respectively \<open>n\<close> days (a field
  out of its range carries over into the next one), and the result is taken back to an
  instant by the host.
\<close>

definition setMinutes_add :: "Zone \<Rightarrow> instant \<Rightarrow> int \<Rightarrow> instant" where
  "setMinutes_add zone date n = UTC zone (LocalTime zone date + n * 60000)"

definition setDate_add :: "Zone \<Rightarrow> instant \<Rightarrow> int \<Rightarrow> instant" where
  "setDate_add zone date n = UTC zone (LocalTime zone date + n * 86400000)"

record Schedule =
  s_id :: nat
  s_startDateTime :: instant
  s_endDateTime :: instant

text \<open>
  The payload of \<open>inserIntoDB\<close>. \<open>startDate\<close> and \<open>endDate\<close> are the instants of
  \<open>new Date(startDate)\<close> and \<open>new Date(endDate)\<close>; the times of day are the numbers
  \<open>Number(startTime.split(':')[0])\<close> and \<open>Number(startTime.split(':')[1])\<close> (hours,
  minutes), likewise for \<open>endTime\<close>.
\<close>

record ISchedule =
  startDate :: instant
  endDate :: instant
  startTime :: "int \<times> int"
  endTime :: "int \<times> int"

definition convertDateTime :: "Zone \<Rightarrow> instant \<Rightarrow> instant" where
  "convertDateTime zone date = date + getTimezoneOffset zone date * 60000"

text \<open>
  \<open>addMinutes\<close> and \<open>addHours\<close> of date-fns add milliseconds to the time value.
\<close>

definition addMinutes :: "instant \<Rightarrow> int \<Rightarrow> instant" where
  "addMinutes date amount = date + amount * 60000"

definition addHours :: "instant \<Rightarrow> int \<Rightarrow> instant" where
  "addHours date amount = date + amount * 3600000"

text \<open>
  \<open>format(currentDate, 'yyyy-MM-dd')\<close> prints the local calendar day of the instant, and
  date-fns turns that string back into a date with \<open>new Date(string)\<close>, which reads a
  date-only string as midnight UTC of that day.
\<close>

definition formatDay :: "Zone \<Rightarrow> instant \<Rightarrow> instant" where
  "formatDay zone date = (LocalTime zone date div 86400000) * 86400000"

definition intervalTime :: int where
  "intervalTime = 30"

definition findFirst_schedule :: "Schedule list \<Rightarrow> instant \<Rightarrow> instant \<Rightarrow> Schedule option" where
  "findFirst_schedule rows s e =
     find (\<lambda>r. s_startDateTime r = s \<and> s_endDateTime r = e) rows"

definition fresh_id :: "Schedule list \<Rightarrow> nat" where
  "fresh_id rows = Suc (fold max (map s_id rows) 0)"

definition create_schedule :: "Schedule list \<Rightarrow> instant \<Rightarrow> instant \<Rightarrow> Schedule" where
  "create_schedule rows s e =
     \<lparr>s_id = fresh_id rows, s_startDateTime = s, s_endDateTime = e\<rparr>"

text \<open>
  The body of the inner \<open>while\<close> loop: the candidate interval is looked up, created when
  absent and pushed on \<open>schedules\<close>. The state is the pair of the list \<open>schedules\<close> and
  the table. Each end of the interval is converted with the offset of its own date.
\<close>

definition slotStep ::
  "Zone \<Rightarrow> instant \<Rightarrow> Schedule list \<times> Schedule list \<Rightarrow> Schedule list \<times> Schedule list" where
  "slotStep zone startDateTime st =
     (let s = convertDateTime zone startDateTime;
          e = convertDateTime zone (addMinutes startDateTime intervalTime)
      in case findFirst_schedule (snd st) s e of
           None \<Rightarrow> (let result = create_schedule (snd st) s e
                     in (fst st @ [result], snd st @ [result]))
         | Some existingSchedule \<Rightarrow> st)"

text \<open>
  The two \<open>while\<close> loops. On a host whose setters do not move a date forward a loop
  need not end, so each loop counts its rounds down from a given number (the fuel) and
  the result is \<open>None\<close> when the rounds are used up before the loop condition fails.
  The outer loop gives every day's inner loop the same number of rounds.
\<close>

fun slotLoop ::
  "nat \<Rightarrow> Zone \<Rightarrow> instant \<Rightarrow> instant \<Rightarrow> Schedule list \<times> Schedule list
     \<Rightarrow> (Schedule list \<times> Schedule list) option" where
  "slotLoop 0 zone startDateTime endDateTime st =
     (if startDateTime < endDateTime then None else Some st)"
| "slotLoop (Suc fuel) zone startDateTime endDateTime st =
     (if startDateTime < endDateTime
      then slotLoop fuel zone (setMinutes_add zone startDateTime intervalTime) endDateTime
             (slotStep zone startDateTime st)
      else Some st)"

definition dayStart :: "Zone \<Rightarrow> instant \<Rightarrow> int \<times> int \<Rightarrow> instant" where
  "dayStart zone currentDate hm =
     addMinutes (addHours (formatDay zone currentDate) (fst hm)) (snd hm)"

fun dayLoop ::
  "nat \<Rightarrow> nat \<Rightarrow> Zone \<Rightarrow> ISchedule \<Rightarrow> instant \<Rightarrow> instant \<Rightarrow> Schedule list \<times> Schedule list
     \<Rightarrow> (Schedule list \<times> Schedule list) option" where
  "dayLoop 0 inner zone payload currentDate lastDate st =
     (if currentDate \<le> lastDate then None else Some st)"
| "dayLoop (Suc fuel) inner zone payload currentDate lastDate st =
     (if currentDate \<le> lastDate
      then (case slotLoop inner zone (dayStart zone currentDate (startTime payload))
                   (dayStart zone currentDate (endTime payload)) st of
              None \<Rightarrow> None
            | Some st' \<Rightarrow>
                dayLoop fuel inner zone payload (setDate_add zone currentDate 1) lastDate st')
      else Some st)"

definition inserIntoDB ::
  "nat \<Rightarrow> Zone \<Rightarrow> ISchedule \<Rightarrow> Schedule list \<Rightarrow> (Schedule list \<times> Schedule list) option" where
  "inserIntoDB fuel zone payload rows =
     dayLoop fuel fuel zone payload (startDate payload) (endDate payload) ([], rows)"

text \<open>
  Devices for the proofs about the generator: the interval of a row, whether an interval is
  in the table, the loop body as a function of the candidate interval, and the candidate
  intervals that the two loops walk through (they do not depend on the table).
\<close>

definition se :: "Schedule \<Rightarrow> instant \<times> instant" where
  "se r = (s_startDateTime r, s_endDateTime r)"

definition present :: "Schedule list \<Rightarrow> instant \<times> instant \<Rightarrow> bool" where
  "present rows c = (\<exists>r \<in> set rows. s_startDateTime r = fst c \<and> s_endDateTime r = snd c)"

definition ensure ::
  "Schedule list \<times> Schedule list \<Rightarrow> instant \<times> instant \<Rightarrow> Schedule list \<times> Schedule list" where
  "ensure st c =
     (case findFirst_schedule (snd st) (fst c) (snd c) of
        None \<Rightarrow> (fst st @ [create_schedule (snd st) (fst c) (snd c)],
                  snd st @ [create_schedule (snd st) (fst c) (snd c)])
      | Some r \<Rightarrow> st)"

definition candidate :: "Zone \<Rightarrow> instant \<Rightarrow> instant \<times> instant" where
  "candidate zone S = (convertDateTime zone S, convertDateTime zone (addMinutes S intervalTime))"

fun slotCands :: "nat \<Rightarrow> Zone \<Rightarrow> instant \<Rightarrow> instant \<Rightarrow> (instant \<times> instant) list option" where
  "slotCands 0 zone S E = (if S < E then None else Some [])"
| "slotCands (Suc fuel) zone S E =
     (if S < E
      then map_option ((#) (candidate zone S))
             (slotCands fuel zone (setMinutes_add zone S intervalTime) E)
      else Some [])"

fun dayCands ::
  "nat \<Rightarrow> nat \<Rightarrow> Zone \<Rightarrow> ISchedule \<Rightarrow> instant \<Rightarrow> instant \<Rightarrow> (instant \<times> instant) list option" where
  "dayCands 0 inner zone p c l = (if c \<le> l then None else Some [])"
| "dayCands (Suc fuel) inner zone p c l =
     (if c \<le> l
      then (case slotCands inner zone (dayStart zone c (startTime p)) (dayStart zone c (endTime p)) of
              None \<Rightarrow> None
            | Some cs \<Rightarrow> map_option ((@) cs) (dayCands fuel inner zone p (setDate_add zone c 1) l))
      else Some [])"




definition advances :: "Zone \<Rightarrow> bool" where
  "advances zone = (\<forall>t. t < setMinutes_add zone t intervalTime \<and> t < setDate_add zone t 1)"

definition window :: "ISchedule \<Rightarrow> int" where
  "window p = (fst (endTime p) - fst (startTime p)) * 3600000
              + (snd (endTime p) - snd (startTime p)) * 60000"

text \<open>
  Two hosts for the examples. \<open>utc\<close> keeps UTC. \<open>anchorage\<close> has the offsets of
  America/Anchorage around 10 March 2024: nine hours behind UTC before
  2024-03-10T11:00:00Z (02:00 on the local clock, which then jumps to 03:00), eight hours
  behind from then on; a local reading before 03:00 of that day is taken with the earlier
  offset.
\<close>

definition utc :: Zone where
  "utc = \<lparr>getTimezoneOffset = (\<lambda>t. 0), UTC = (\<lambda>t. t)\<rparr>"

definition anchorage :: Zone where
  "anchorage =
     \<lparr>getTimezoneOffset = (\<lambda>t. if t < 1710068400000 then 540 else 480),
      UTC = (\<lambda>l. if l < 1710039600000 then l + 32400000 else l + 28800000)\<rparr>"

section \<open>The store of appointments and payments\<close>

text \<open>
  The tables that booking, payment confirmation and the sweep of unpaid appointments work
  on, with the columns these operations read or write. Identifiers are the uuid strings of
  the schema. A table is the list of its rows in insertion order. The uniqueness
  constraints of the schema (primary keys, \<open>Appointment.scheduleId\<close>,
  \<open>Payment.appointmentId\<close>, \<open>Payment.transactionId\<close>, \<open>Payment.stripeEventId\<close>)
  are checked by the operations that insert or update; amounts are whole currency units.
\<close>

datatype AppointmentStatus = SCHEDULED | COMPLETED | CANCELED

datatype PaymentStatus = UNPAID | PAID

datatype UserRole = PATIENT | DOCTOR | ADMIN | SUPER_ADMIN

record Patient =
  pt_id :: string
  pt_email :: string

record Doctor =
  d_id :: string
  d_email :: string
  d_name :: string
  d_appointmentFee :: int
  d_isDeleted :: bool

record DoctorSchedules =
  ds_doctorId :: string
  ds_scheduleId :: string
  ds_isBooked :: bool

record Appointment =
  a_id :: string
  a_patientId :: string
  a_doctorId :: string
  a_scheduleId :: string
  a_videoCallingId :: string
  a_status :: AppointmentStatus
  a_paymentStatus :: PaymentStatus
  a_createdAt :: instant

record Payment =
  p_id :: string
  p_appointmentId :: string
  p_amount :: int
  p_transactionId :: string
  p_status :: PaymentStatus
  p_paymentGatewayData :: "string option"
  p_stripeEventId :: "string option"
  p_createdAt :: instant

record DB =
  patients :: "Patient list"
  doctors :: "Doctor list"
  doctor_schedules :: "DoctorSchedules list"
  appointments :: "Appointment list"
  payments :: "Payment list"

text \<open>
  What the operations throw: the two errors of the database client (\<open>P2025\<close>, a required
  row is missing; \<open>P2002\<close>, a uniqueness constraint is violated), the \<open>ApiError\<close> of
  the application with its status code and message, a rejected request to the payment
  gateway, the \<open>TypeError\<close> of reading a field of \<open>null\<close>, and the rejection of an
  event without correlation metadata.
\<close>

datatype error =
    NotFoundError
  | UniqueConstraintError
  | ApiError nat string
  | StripeError string
  | TypeError
  | MalformedEvent

subsection \<open>Operations of the database client\<close>

definition patient_findUniqueOrThrow :: "DB \<Rightarrow> string \<Rightarrow> error + Patient" where
  "patient_findUniqueOrThrow db email =
     (case find (\<lambda>p. pt_email p = email) (patients db) of
        None \<Rightarrow> Inl NotFoundError | Some p \<Rightarrow> Inr p)"

definition doctor_findUniqueOrThrow :: "DB \<Rightarrow> string \<Rightarrow> error + Doctor" where
  "doctor_findUniqueOrThrow db doctorId =
     (case find (\<lambda>d. d_id d = doctorId \<and> \<not> d_isDeleted d) (doctors db) of
        None \<Rightarrow> Inl NotFoundError | Some d \<Rightarrow> Inr d)"

definition doctorSchedules_findFirstOrThrow ::
  "DB \<Rightarrow> string \<Rightarrow> string \<Rightarrow> error + DoctorSchedules" where
  "doctorSchedules_findFirstOrThrow db doctorId scheduleId =
     (case find (\<lambda>b. ds_doctorId b = doctorId \<and> ds_scheduleId b = scheduleId \<and> \<not> ds_isBooked b)
             (doctor_schedules db) of
        None \<Rightarrow> Inl NotFoundError | Some b \<Rightarrow> Inr b)"

definition appointment_create :: "DB \<Rightarrow> Appointment \<Rightarrow> error + DB" where
  "appointment_create db a =
     (case find (\<lambda>x. a_id x = a_id a \<or> a_scheduleId x = a_scheduleId a) (appointments db) of
        Some x \<Rightarrow> Inl UniqueConstraintError
      | None \<Rightarrow> Inr (db\<lparr>appointments := appointments db @ [a]\<rparr>))"

definition doctorSchedules_update :: "DB \<Rightarrow> string \<Rightarrow> string \<Rightarrow> bool \<Rightarrow> error + DB" where
  "doctorSchedules_update db doctorId scheduleId isBooked =
     (case find (\<lambda>b. ds_doctorId b = doctorId \<and> ds_scheduleId b = scheduleId) (doctor_schedules db) of
        None \<Rightarrow> Inl NotFoundError
      | Some x \<Rightarrow>
          Inr (db\<lparr>doctor_schedules :=
                 map (\<lambda>b. if ds_doctorId b = doctorId \<and> ds_scheduleId b = scheduleId
                          then b\<lparr>ds_isBooked := isBooked\<rparr> else b)
                   (doctor_schedules db)\<rparr>))"

definition payment_create :: "DB \<Rightarrow> Payment \<Rightarrow> error + DB" where
  "payment_create db p =
     (case find (\<lambda>x. p_id x = p_id p \<or> p_appointmentId x = p_appointmentId p
                      \<or> p_transactionId x = p_transactionId p) (payments db) of
        Some x \<Rightarrow> Inl UniqueConstraintError
      | None \<Rightarrow> Inr (db\<lparr>payments := payments db @ [p]\<rparr>))"

definition appointment_findUnique :: "DB \<Rightarrow> string \<Rightarrow> Appointment option" where
  "appointment_findUnique db appointmentId = find (\<lambda>a. a_id a = appointmentId) (appointments db)"

definition appointment_update_status :: "DB \<Rightarrow> string \<Rightarrow> AppointmentStatus \<Rightarrow> error + DB" where
  "appointment_update_status db appointmentId status =
     (case appointment_findUnique db appointmentId of
        None \<Rightarrow> Inl NotFoundError
      | Some x \<Rightarrow>
          Inr (db\<lparr>appointments :=
                 map (\<lambda>a. if a_id a = appointmentId then a\<lparr>a_status := status\<rparr> else a)
                   (appointments db)\<rparr>))"

definition appointment_update_paymentStatus :: "DB \<Rightarrow> string \<Rightarrow> PaymentStatus \<Rightarrow> error + DB" where
  "appointment_update_paymentStatus db appointmentId paymentStatus =
     (case appointment_findUnique db appointmentId of
        None \<Rightarrow> Inl NotFoundError
      | Some x \<Rightarrow>
          Inr (db\<lparr>appointments :=
                 map (\<lambda>a. if a_id a = appointmentId then a\<lparr>a_paymentStatus := paymentStatus\<rparr> else a)
                   (appointments db)\<rparr>))"

definition payment_update ::
  "DB \<Rightarrow> string \<Rightarrow> PaymentStatus \<Rightarrow> string \<Rightarrow> string \<Rightarrow> error + DB" where
  "payment_update db paymentId status gatewayData eventId =
     (case find (\<lambda>p. p_id p = paymentId) (payments db) of
        None \<Rightarrow> Inl NotFoundError
      | Some x \<Rightarrow>
          (case find (\<lambda>p. p_id p \<noteq> paymentId \<and> p_stripeEventId p = Some eventId) (payments db) of
             Some y \<Rightarrow> Inl UniqueConstraintError
           | None \<Rightarrow>
               Inr (db\<lparr>payments :=
                      map (\<lambda>p. if p_id p = paymentId
                               then p\<lparr>p_status := status, p_paymentGatewayData := Some gatewayData,
                                      p_stripeEventId := Some eventId\<rparr>
                               else p)
                        (payments db)\<rparr>)))"

definition appointment_updateMany_status :: "DB \<Rightarrow> string list \<Rightarrow> AppointmentStatus \<Rightarrow> DB" where
  "appointment_updateMany_status db ids status =
     db\<lparr>appointments :=
          map (\<lambda>a. if a_id a \<in> set ids then a\<lparr>a_status := status\<rparr> else a) (appointments db)\<rparr>"

definition payment_deleteMany :: "DB \<Rightarrow> string list \<Rightarrow> DB" where
  "payment_deleteMany db ids =
     db\<lparr>payments := filter (\<lambda>p. p_appointmentId p \<notin> set ids) (payments db)\<rparr>"

text \<open>
  An interactive transaction runs its body on the store; when the body throws, every write
  of the body is rolled back and the error is thrown on.
\<close>

definition transaction :: "(DB \<Rightarrow> error + 'a \<times> DB) \<Rightarrow> DB \<Rightarrow> (error + 'a) \<times> DB" where
  "transaction body db =
     (case body db of
        Inl e \<Rightarrow> (Inl e, db)
      | Inr (result, db') \<Rightarrow> (Inr result, db'))"

subsection \<open>The payment gateway\<close>

text \<open>
  \<open>stripe.checkout.sessions.create\<close> is a parameter of the operations that call it: a
  function from the request to the session, or to the error it rejects with.
\<close>

record SessionParams =
  customer_email :: string
  product_name :: string
  unit_amount :: int
  metadata_appointmentId :: string
  metadata_paymentId :: string

record Session =
  session_id :: string
  session_url :: string

type_synonym gateway = "SessionParams \<Rightarrow> error + Session"

section \<open>Booking (appointment.service.ts)\<close>

record IAuthUser =
  email :: string
  role :: UserRole

record BookingPayload =
  doctorId :: string
  scheduleId :: string

text \<open>
  The values that a booking draws: the identifiers that the schema gives the new
  appointment and the new payment, and the two results of \<open>uuidv4()\<close>.
\<close>

record Uuids =
  u_appointmentId :: string
  u_videoCallingId :: string
  u_transactionId :: string
  u_paymentId :: string

text \<open>
  The three reads that open \<open>createAppointment\<close> and \<open>createAppointmentWithPayLater\<close>
  alike, before either opens its transaction: the patient of the caller, the doctor (not
  deleted), and the doctor's schedule row with \<open>isBooked: false\<close>.
\<close>

definition bookingChecks :: "DB \<Rightarrow> IAuthUser \<Rightarrow> BookingPayload \<Rightarrow> error + Patient \<times> Doctor" where
  "bookingChecks db user payload =
     (case patient_findUniqueOrThrow db (email user) of
        Inl e \<Rightarrow> Inl e
      | Inr patientData \<Rightarrow>
     (case doctor_findUniqueOrThrow db (doctorId payload) of
        Inl e \<Rightarrow> Inl e
      | Inr doctorData \<Rightarrow>
     (case doctorSchedules_findFirstOrThrow db (d_id doctorData) (scheduleId payload) of
        Inl e \<Rightarrow> Inl e
      | Inr available \<Rightarrow> Inr (patientData, doctorData))))"

definition newAppointment :: "instant \<Rightarrow> Uuids \<Rightarrow> Patient \<Rightarrow> Doctor \<Rightarrow> BookingPayload \<Rightarrow> Appointment" where
  "newAppointment now uuids patientData doctorData payload =
     \<lparr>a_id = u_appointmentId uuids, a_patientId = pt_id patientData, a_doctorId = d_id doctorData,
      a_scheduleId = scheduleId payload, a_videoCallingId = u_videoCallingId uuids,
      a_status = SCHEDULED, a_paymentStatus = UNPAID, a_createdAt = now\<rparr>"

definition newPayment :: "instant \<Rightarrow> Uuids \<Rightarrow> Doctor \<Rightarrow> Payment" where
  "newPayment now uuids doctorData =
     \<lparr>p_id = u_paymentId uuids, p_appointmentId = u_appointmentId uuids,
      p_amount = d_appointmentFee doctorData, p_transactionId = u_transactionId uuids,
      p_status = UNPAID, p_paymentGatewayData = None, p_stripeEventId = None, p_createdAt = now\<rparr>"

definition createAppointment ::
  "gateway \<Rightarrow> instant \<Rightarrow> Uuids \<Rightarrow> IAuthUser \<Rightarrow> BookingPayload \<Rightarrow> DB \<Rightarrow> (error + string) \<times> DB" where
  "createAppointment stripe now uuids user payload db =
     (case bookingChecks db user payload of
        Inl e \<Rightarrow> (Inl e, db)
      | Inr (patientData, doctorData) \<Rightarrow>
          transaction (\<lambda>tnx.
            case appointment_create tnx (newAppointment now uuids patientData doctorData payload) of
              Inl e \<Rightarrow> Inl e
            | Inr tnx1 \<Rightarrow>
            (case doctorSchedules_update tnx1 (d_id doctorData) (scheduleId payload) True of
              Inl e \<Rightarrow> Inl e
            | Inr tnx2 \<Rightarrow>
            (case payment_create tnx2 (newPayment now uuids doctorData) of
              Inl e \<Rightarrow> Inl e
            | Inr tnx3 \<Rightarrow>
            (case stripe \<lparr>customer_email = email user,
                           product_name = ''Appointment with '' @ d_name doctorData,
                           unit_amount = d_appointmentFee doctorData * 100,
                           metadata_appointmentId = u_appointmentId uuids,
                           metadata_paymentId = u_paymentId uuids\<rparr> of
              Inl e \<Rightarrow> Inl e
            | Inr session \<Rightarrow> Inr (session_url session, tnx3))))) db)"

definition createAppointmentWithPayLater ::
  "instant \<Rightarrow> Uuids \<Rightarrow> IAuthUser \<Rightarrow> BookingPayload \<Rightarrow> DB \<Rightarrow> (error + Appointment) \<times> DB" where
  "createAppointmentWithPayLater now uuids user payload db =
     (case bookingChecks db user payload of
        Inl e \<Rightarrow> (Inl e, db)
      | Inr (patientData, doctorData) \<Rightarrow>
          transaction (\<lambda>tnx.
            case appointment_create tnx (newAppointment now uuids patientData doctorData payload) of
              Inl e \<Rightarrow> Inl e
            | Inr tnx1 \<Rightarrow>
            (case doctorSchedules_update tnx1 (d_id doctorData) (scheduleId payload) True of
              Inl e \<Rightarrow> Inl e
            | Inr tnx2 \<Rightarrow>
            (case payment_create tnx2 (newPayment now uuids doctorData) of
              Inl e \<Rightarrow> Inl e
            | Inr tnx3 \<Rightarrow>
                Inr (newAppointment now uuids patientData doctorData payload, tnx3)))) db)"

definition updateAppointmentStatus ::
  "string \<Rightarrow> AppointmentStatus \<Rightarrow> IAuthUser \<Rightarrow> DB \<Rightarrow> (error + unit) \<times> DB" where
  "updateAppointmentStatus appointmentId status user db =
     (case appointment_findUnique db appointmentId of
        None \<Rightarrow> (Inl NotFoundError, db)
      | Some appointmentData \<Rightarrow>
     (case (if role user = DOCTOR
            then (case find (\<lambda>d. d_id d = a_doctorId appointmentData) (doctors db) of
                    None \<Rightarrow> Inl TypeError
                  | Some doctor \<Rightarrow>
                      if \<not> (email user = d_email doctor)
                      then Inl (ApiError 400 ''This is not your appointment'')
                      else Inr ())
            else Inr ()) of
        Inl e \<Rightarrow> (Inl e, db)
      | Inr ok \<Rightarrow>
     (case appointment_update_status db appointmentId status of
        Inl e \<Rightarrow> (Inl e, db)
      | Inr db' \<Rightarrow> (Inr (), db'))))"

subsection \<open>The sweep of unpaid appointments\<close>

text \<open>
  \<open>cancelUnpaidAppointments\<close> runs one query (\<open>findMany\<close>) and then one transaction over
  everything the query returned. The two are separate definitions, since the store can
  change between them.
\<close>

definition appointment_findMany_unpaid :: "DB \<Rightarrow> instant \<Rightarrow> Appointment list" where
  "appointment_findMany_unpaid db thirtyMinAgo =
     filter (\<lambda>a. a_createdAt a \<le> thirtyMinAgo \<and> a_paymentStatus a = UNPAID) (appointments db)"

fun freeSchedules :: "Appointment list \<Rightarrow> DB \<Rightarrow> error + DB" where
  "freeSchedules [] tnx = Inr tnx"
| "freeSchedules (unPaidAppointment # rest) tnx =
     (case doctorSchedules_update tnx (a_doctorId unPaidAppointment)
             (a_scheduleId unPaidAppointment) False of
        Inl e \<Rightarrow> Inl e
      | Inr tnx' \<Rightarrow> freeSchedules rest tnx')"

definition cancelTransaction :: "Appointment list \<Rightarrow> DB \<Rightarrow> (error + unit) \<times> DB" where
  "cancelTransaction unPaidAppointments db =
     transaction (\<lambda>tnx.
       case freeSchedules unPaidAppointments
              (payment_deleteMany
                 (appointment_updateMany_status tnx (map a_id unPaidAppointments) CANCELED)
                 (map a_id unPaidAppointments)) of
         Inl e \<Rightarrow> Inl e
       | Inr tnx' \<Rightarrow> Inr ((), tnx')) db"

definition cancelUnpaidAppointments :: "instant \<Rightarrow> DB \<Rightarrow> (error + unit) \<times> DB" where
  "cancelUnpaidAppointments now db =
     cancelTransaction (appointment_findMany_unpaid db (now - 30 * 60 * 1000)) db"

subsection \<open>Payment for an existing appointment\<close>

definition initiatePaymentForAppointment ::
  "gateway \<Rightarrow> string \<Rightarrow> IAuthUser \<Rightarrow> DB \<Rightarrow> (error + string) \<times> DB" where
  "initiatePaymentForAppointment stripe appointmentId user db =
     (case patient_findUniqueOrThrow db (email user) of
        Inl e \<Rightarrow> (Inl e, db)
      | Inr patientData \<Rightarrow>
     (case find (\<lambda>a. a_id a = appointmentId \<and> a_patientId a = pt_id patientData) (appointments db) of
        None \<Rightarrow> (Inl (ApiError 400 ''Appointment not found or unauthorized''), db)
      | Some appointment \<Rightarrow>
          if a_paymentStatus appointment \<noteq> UNPAID
          then (Inl (ApiError 400 ''Payment already completed for this appointment''), db)
          else if a_status appointment = CANCELED
          then (Inl (ApiError 400 ''Cannot pay for cancelled appointment''), db)
          else
            (case find (\<lambda>d. d_id d = a_doctorId appointment) (doctors db) of
               None \<Rightarrow> (Inl TypeError, db)
             | Some doctor \<Rightarrow>
            (case find (\<lambda>p. p_appointmentId p = a_id appointment) (payments db) of
               None \<Rightarrow> (Inl TypeError, db)
             | Some payment \<Rightarrow>
            (case stripe \<lparr>customer_email = email user,
                           product_name = ''Appointment with '' @ d_name doctor,
                           unit_amount = p_amount payment * 100,
                           metadata_appointmentId = a_id appointment,
                           metadata_paymentId = p_id payment\<rparr> of
               Inl e \<Rightarrow> (Inl e, db)
             | Inr session \<Rightarrow> (Inr (session_url session), db))))))"

subsection \<open>The global error handler\<close>

text \<open>
  The status code and the success flag of the response that \<open>globalErrorHandler\<close> sends
  for a thrown error: the handler never assigns \<open>statusCode\<close> after initialising it.
\<close>

record ErrorResponse =
  er_statusCode :: nat
  er_success :: bool

definition INTERNAL_SERVER_ERROR :: nat where
  "INTERNAL_SERVER_ERROR = 500"

definition globalErrorHandler :: "error \<Rightarrow> ErrorResponse" where
  "globalErrorHandler err = \<lparr>er_statusCode = INTERNAL_SERVER_ERROR, er_success = False\<rparr>"

section \<open>Payment confirmation (payment.service.ts, payment.controller.ts)\<close>

datatype EventKind = SessionCompleted | SessionExpired | PaymentFailed

text \<open>
  A verified event of the gateway: its identifier, its kind, the correlation metadata that
  the checkout session was created with (either entry may be missing) and the session
  object that is stored as gateway data.
\<close>

record Event =
  ev_id :: string
  ev_type :: EventKind
  ev_appointmentId :: "string option"
  ev_paymentId :: "string option"
  ev_session :: string

datatype WebhookResult = AlreadyProcessed | AppointmentNotFound | PaymentPaid | Recorded

text \<open>
  Modelled from the spec: the body of \<open>handleStripeWebhookEvent\<close> in payment.service.ts
  is missing from the sources; only excerpts of it are quoted in the migration guide. The
  definition follows section 4.4 of the specification step by step, and the quoted
  excerpts for the queries: the idempotency gate (a payment whose \<open>stripeEventId\<close> is the
  event's identifier), the extraction of the correlation metadata (missing data is
  rejected as a malformed event), the lookup of the appointment (absent: acknowledged),
  and the dispatch on the kind of event, where a completed session sets, in one
  transaction, the appointment's payment status and the payment's status, gateway data and
  event identifier.
\<close>

definition handleStripeWebhookEvent_service :: "Event \<Rightarrow> DB \<Rightarrow> (error + WebhookResult) \<times> DB" where
  "handleStripeWebhookEvent_service event db =
     (case find (\<lambda>p. p_stripeEventId p = Some (ev_id event)) (payments db) of
        Some existingPayment \<Rightarrow> (Inr AlreadyProcessed, db)
      | None \<Rightarrow>
     (case ev_appointmentId event of
        None \<Rightarrow> (Inl MalformedEvent, db)
      | Some appointmentId \<Rightarrow>
     (case ev_paymentId event of
        None \<Rightarrow> (Inl MalformedEvent, db)
      | Some paymentId \<Rightarrow>
     (case appointment_findUnique db appointmentId of
        None \<Rightarrow> (Inr AppointmentNotFound, db)
      | Some appointment \<Rightarrow>
     (case ev_type event of
        SessionCompleted \<Rightarrow>
          transaction (\<lambda>tx.
            case appointment_update_paymentStatus tx appointmentId PAID of
              Inl e \<Rightarrow> Inl e
            | Inr tx1 \<Rightarrow>
            (case payment_update tx1 paymentId PAID (ev_session event) (ev_id event) of
              Inl e \<Rightarrow> Inl e
            | Inr tx2 \<Rightarrow> Inr (PaymentPaid, tx2))) db
      | SessionExpired \<Rightarrow> (Inr Recorded, db)
      | PaymentFailed \<Rightarrow> (Inr Recorded, db))))))"

text \<open>
  The controller. The configuration holds the webhook secret (absent or empty counts as not
  configured); \<open>stripe.webhooks.constructEvent\<close> is the parameter \<open>constructEvent\<close>, from
  body, signature header and secret to the event or to the message of the error it throws;
  the service that the controller calls is the parameter \<open>service\<close>. A response is its
  status code, the \<open>success\<close> flag of the envelope of \<open>sendResponse\<close> (none for a plain
  \<open>send\<close>) and its message.
\<close>

record Config =
  stripeWebhookSecret :: "string option"

record Request =
  req_body :: string
  req_signature :: string

record Response =
  statusCode :: nat
  success :: "bool option"
  message :: string

definition handleStripeWebhookEvent ::
  "(Event \<Rightarrow> DB \<Rightarrow> (error + WebhookResult) \<times> DB)
     \<Rightarrow> (string \<Rightarrow> string \<Rightarrow> string \<Rightarrow> string + Event)
     \<Rightarrow> Config \<Rightarrow> Request \<Rightarrow> DB \<Rightarrow> Response \<times> DB" where
  "handleStripeWebhookEvent service constructEvent config req db =
     (case stripeWebhookSecret config of
        None \<Rightarrow>
          (\<lparr>statusCode = 500, success = None, message = ''Webhook secret not configured''\<rparr>, db)
      | Some webhookSecret \<Rightarrow>
          if webhookSecret = []
          then (\<lparr>statusCode = 500, success = None, message = ''Webhook secret not configured''\<rparr>, db)
          else
            (case constructEvent (req_body req) (req_signature req) webhookSecret of
               Inl err_message \<Rightarrow>
                 (\<lparr>statusCode = 400, success = None,
                   message = ''Webhook Error: '' @ err_message\<rparr>, db)
             | Inr event \<Rightarrow>
                 (case service event db of
                    (Inr result, db') \<Rightarrow>
                      (\<lparr>statusCode = 200, success = Some True,
                        message = ''Webhook processed successfully''\<rparr>, db')
                  | (Inl error, db') \<Rightarrow>
                      (\<lparr>statusCode = 200, success = Some True,
                        message = ''Webhook received but processing failed''\<rparr>, db'))))"

text \<open>The store after \<open>n\<close> deliveries of one event, one after the other.\<close>

fun deliveries :: "nat \<Rightarrow> Event \<Rightarrow> DB \<Rightarrow> DB" where
  "deliveries 0 event db = db"
| "deliveries (Suc n) event db = deliveries n event (snd (handleStripeWebhookEvent_service event db))"

section \<open>States of the system\<close>

text \<open>
  The payment invariant: an appointment and its payment record agree on whether the
  payment is made.
\<close>

definition consistent :: "DB \<Rightarrow> bool" where
  "consistent db =
     (\<forall>a \<in> set (appointments db). \<forall>p \<in> set (payments db).
        p_appointmentId p = a_id a \<longrightarrow> (a_paymentStatus a = PAID \<longleftrightarrow> p_status p = PAID))"

text \<open>
  A state of the system: the store, the metadata (identifier of the appointment, identifier
  of the payment) of the checkout sessions that the gateway has created for this system,
  and the payment identifiers that were drawn so far.
\<close>

record World =
  w_store :: DB
  w_sessions :: "(string \<times> string) list"
  w_drawn :: "string list"

text \<open>
  An event that the gateway delivers reports on a checkout session of this system and
  carries the metadata of that session, or it carries no such metadata.
\<close>

definition fromSession :: "Event \<Rightarrow> World \<Rightarrow> bool" where
  "fromSession event w =
     (case ev_appointmentId event of
        None \<Rightarrow> True
      | Some appointmentId \<Rightarrow>
     (case ev_paymentId event of
        None \<Rightarrow> True
      | Some paymentId \<Rightarrow> (appointmentId, paymentId) \<in> set (w_sessions w)))"

text \<open>
  The states that the system reaches from a store without appointments and payments, by
  both bookings, the change of an appointment's status, the creation of a checkout
  session, the handling of a delivered event and the sweep, with any arguments. A booking
  draws a payment identifier that was not drawn before (the schema fills it with a uuid).
  The gateway creates a session on
  a request of \<open>createAppointment\<close> or of \<open>initiatePaymentForAppointment\<close>, and the
  metadata of either request are the identifier of a payment of the store together with
  the appointment of that payment (lemmas \<open>createAppointment_request\<close> and
  \<open>initiatePayment_request\<close>); rule \<open>checkout\<close> admits a session for every payment of
  the store.
\<close>

inductive reachable :: "World \<Rightarrow> bool" where
  initial: "appointments db = [] \<Longrightarrow> payments db = [] \<Longrightarrow>
     reachable \<lparr>w_store = db, w_sessions = [], w_drawn = []\<rparr>"
| payNow: "reachable w \<Longrightarrow> u_paymentId uuids \<notin> set (w_drawn w) \<Longrightarrow>
     reachable (w\<lparr>w_store := snd (createAppointment stripe now uuids user payload (w_store w)),
                  w_drawn := u_paymentId uuids # w_drawn w\<rparr>)"
| payLater: "reachable w \<Longrightarrow> u_paymentId uuids \<notin> set (w_drawn w) \<Longrightarrow>
     reachable (w\<lparr>w_store := snd (createAppointmentWithPayLater now uuids user payload (w_store w)),
                  w_drawn := u_paymentId uuids # w_drawn w\<rparr>)"
| status: "reachable w \<Longrightarrow>
     reachable (w\<lparr>w_store := snd (updateAppointmentStatus appointmentId st user (w_store w))\<rparr>)"
| checkout: "reachable w \<Longrightarrow> p \<in> set (payments (w_store w)) \<Longrightarrow>
     reachable (w\<lparr>w_sessions := (p_appointmentId p, p_id p) # w_sessions w\<rparr>)"
| event: "reachable w \<Longrightarrow> fromSession ev w \<Longrightarrow>
     reachable (w\<lparr>w_store := snd (handleStripeWebhookEvent_service ev (w_store w))\<rparr>)"
| sweep: "reachable w \<Longrightarrow>
     reachable (w\<lparr>w_store := snd (cancelUnpaidAppointments now (w_store w))\<rparr>)"

text \<open>
  The three writes that both bookings make in their transaction, as one function (a device
  for the proofs).
\<close>

definition reserve ::
  "instant \<Rightarrow> Uuids \<Rightarrow> Patient \<Rightarrow> Doctor \<Rightarrow> BookingPayload \<Rightarrow> DB \<Rightarrow> error + DB" where
  "reserve now uuids patientData doctorData payload tnx =
     (case appointment_create tnx (newAppointment now uuids patientData doctorData payload) of
        Inl e \<Rightarrow> Inl e
      | Inr tnx1 \<Rightarrow>
     (case doctorSchedules_update tnx1 (d_id doctorData) (scheduleId payload) True of
        Inl e \<Rightarrow> Inl e
      | Inr tnx2 \<Rightarrow> payment_create tnx2 (newPayment now uuids doctorData)))"

text \<open>
  The transaction of each booking alone, run on the patient and the doctor that the reads
  before it returned (a device to tell what the transaction itself does from what the
  reads before it do).
\<close>

definition payNowTransaction ::
  "gateway \<Rightarrow> instant \<Rightarrow> Uuids \<Rightarrow> IAuthUser \<Rightarrow> Patient \<Rightarrow> Doctor \<Rightarrow> BookingPayload \<Rightarrow> DB
     \<Rightarrow> (error + string) \<times> DB" where
  "payNowTransaction stripe now uuids user patientData doctorData payload db =
     transaction (\<lambda>tnx.
       case appointment_create tnx (newAppointment now uuids patientData doctorData payload) of
         Inl e \<Rightarrow> Inl e
       | Inr tnx1 \<Rightarrow>
       (case doctorSchedules_update tnx1 (d_id doctorData) (scheduleId payload) True of
         Inl e \<Rightarrow> Inl e
       | Inr tnx2 \<Rightarrow>
       (case payment_create tnx2 (newPayment now uuids doctorData) of
         Inl e \<Rightarrow> Inl e
       | Inr tnx3 \<Rightarrow>
       (case stripe \<lparr>customer_email = email user,
                      product_name = ''Appointment with '' @ d_name doctorData,
                      unit_amount = d_appointmentFee doctorData * 100,
                      metadata_appointmentId = u_appointmentId uuids,
                      metadata_paymentId = u_paymentId uuids\<rparr> of
         Inl e \<Rightarrow> Inl e
       | Inr session \<Rightarrow> Inr (session_url session, tnx3))))) db"

definition payLaterTransaction ::
  "instant \<Rightarrow> Uuids \<Rightarrow> Patient \<Rightarrow> Doctor \<Rightarrow> BookingPayload \<Rightarrow> DB \<Rightarrow> (error + Appointment) \<times> DB" where
  "payLaterTransaction now uuids patientData doctorData payload db =
     transaction (\<lambda>tnx.
       case appointment_create tnx (newAppointment now uuids patientData doctorData payload) of
         Inl e \<Rightarrow> Inl e
       | Inr tnx1 \<Rightarrow>
       (case doctorSchedules_update tnx1 (d_id doctorData) (scheduleId payload) True of
         Inl e \<Rightarrow> Inl e
       | Inr tnx2 \<Rightarrow>
       (case payment_create tnx2 (newPayment now uuids doctorData) of
         Inl e \<Rightarrow> Inl e
       | Inr tnx3 \<Rightarrow>
           Inr (newAppointment now uuids patientData doctorData payload, tnx3)))) db"

text \<open>
  The store with other \<open>isBooked\<close> flags: row \<open>b\<close> gets the flag \<open>flag b\<close>.
\<close>

definition flagged :: "(DoctorSchedules \<Rightarrow> bool) \<Rightarrow> DB \<Rightarrow> DB" where
  "flagged flag db =
     db\<lparr>doctor_schedules := map (\<lambda>b. b\<lparr>ds_isBooked := flag b\<rparr>) (doctor_schedules db)\<rparr>"

text \<open>Whether a row of \<open>doctor_schedules\<close> is the one of an appointment.\<close>

definition bindingOf :: "Appointment \<Rightarrow> DoctorSchedules \<Rightarrow> bool" where
  "bindingOf a b = (ds_doctorId b = a_doctorId a \<and> ds_scheduleId b = a_scheduleId a)"

section \<open>Example stores\<close>

text \<open>
  Two patients, one doctor and the doctor's free slot \<open>s1\<close>; the store after the first
  patient has booked the slot at time 0 with deferred payment; and the event that reports
  the completed checkout session of that booking.
\<close>

definition userP :: IAuthUser where
  "userP = \<lparr>email = ''p@mail'', role = PATIENT\<rparr>"

definition userQ :: IAuthUser where
  "userQ = \<lparr>email = ''q@mail'', role = PATIENT\<rparr>"

definition payloadS :: BookingPayload where
  "payloadS = \<lparr>doctorId = ''d1'', scheduleId = ''s1''\<rparr>"

definition uuidsP :: Uuids where
  "uuidsP = \<lparr>u_appointmentId = ''a1'', u_videoCallingId = ''v1'', u_transactionId = ''t1'',
             u_paymentId = ''pay1''\<rparr>"

definition uuidsQ :: Uuids where
  "uuidsQ = \<lparr>u_appointmentId = ''a2'', u_videoCallingId = ''v2'', u_transactionId = ''t2'',
             u_paymentId = ''pay2''\<rparr>"

definition appointmentP :: Appointment where
  "appointmentP =
     \<lparr>a_id = ''a1'', a_patientId = ''p1'', a_doctorId = ''d1'', a_scheduleId = ''s1'',
      a_videoCallingId = ''v1'', a_status = SCHEDULED, a_paymentStatus = UNPAID, a_createdAt = 0\<rparr>"

definition paymentP :: Payment where
  "paymentP =
     \<lparr>p_id = ''pay1'', p_appointmentId = ''a1'', p_amount = 500, p_transactionId = ''t1'',
      p_status = UNPAID, p_paymentGatewayData = None, p_stripeEventId = None, p_createdAt = 0\<rparr>"

definition db0 :: DB where
  "db0 =
     \<lparr>patients = [\<lparr>pt_id = ''p1'', pt_email = ''p@mail''\<rparr>, \<lparr>pt_id = ''p2'', pt_email = ''q@mail''\<rparr>],
      doctors = [\<lparr>d_id = ''d1'', d_email = ''d@mail'', d_name = ''Who'', d_appointmentFee = 500,
                 d_isDeleted = False\<rparr>],
      doctor_schedules = [\<lparr>ds_doctorId = ''d1'', ds_scheduleId = ''s1'', ds_isBooked = False\<rparr>],
      appointments = [],
      payments = []\<rparr>"

definition db1 :: DB where
  "db1 =
     db0\<lparr>doctor_schedules := [\<lparr>ds_doctorId = ''d1'', ds_scheduleId = ''s1'', ds_isBooked = True\<rparr>],
         appointments := [appointmentP],
         payments := [paymentP]\<rparr>"

definition event1 :: Event where
  "event1 =
     \<lparr>ev_id = ''evt_1'', ev_type = SessionCompleted, ev_appointmentId = Some ''a1'',
      ev_paymentId = Some ''pay1'', ev_session = ''cs_1''\<rparr>"

text \<open>
  The rows that the reads of the second patient's booking return on \<open>db0\<close>, and the
  state of the system after the first patient's booking and the creation of a checkout
  session for it.
\<close>

definition patientQ :: Patient where
  "patientQ = \<lparr>pt_id = ''p2'', pt_email = ''q@mail''\<rparr>"

definition doctorD :: Doctor where
  "doctorD = \<lparr>d_id = ''d1'', d_email = ''d@mail'', d_name = ''Who'', d_appointmentFee = 500,
              d_isDeleted = False\<rparr>"

definition world1 :: World where
  "world1 = \<lparr>w_store = db1, w_sessions = [(''a1'', ''pay1'')], w_drawn = [''pay1'']\<rparr>"

definition CONFLICT :: nat where
  "CONFLICT = 409"

section \<open>Devices for the proofs about the sweep\<close>

text \<open>
  A row of \<open>doctor_schedules\<close> after the loop that frees the schedules of the selected
  appointments, and the store after the whole transaction of the sweep has committed.
\<close>

definition released :: "Appointment list \<Rightarrow> DoctorSchedules \<Rightarrow> DoctorSchedules" where
  "released unPaid b = (if \<exists>a \<in> set unPaid. bindingOf a b then b\<lparr>ds_isBooked := False\<rparr> else b)"

definition swept :: "Appointment list \<Rightarrow> DB \<Rightarrow> DB" where
  "swept unPaid db =
     db\<lparr>doctor_schedules := map (released unPaid) (doctor_schedules db),
        appointments := map (\<lambda>a. if a_id a \<in> set (map a_id unPaid) then a\<lparr>a_status := CANCELED\<rparr> else a)
                          (appointments db),
        payments := filter (\<lambda>p. p_appointmentId p \<notin> set (map a_id unPaid)) (payments db)\<rparr>"

section \<open>Devices for the proofs about payment confirmation\<close>

text \<open>The store after the transaction of a completed session has committed.\<close>

definition paid :: "string \<Rightarrow> string \<Rightarrow> Event \<Rightarrow> DB \<Rightarrow> DB" where
  "paid appointmentId paymentId event db =
     db\<lparr>appointments :=
          map (\<lambda>a. if a_id a = appointmentId then a\<lparr>a_paymentStatus := PAID\<rparr> else a) (appointments db),
        payments :=
          map (\<lambda>p. if p_id p = paymentId
                   then p\<lparr>p_status := PAID, p_paymentGatewayData := Some (ev_session event),
                          p_stripeEventId := Some (ev_id event)\<rparr>
                   else p) (payments db)\<rparr>"

text \<open>
  The invariant that the reachable stores are shown to satisfy: the payment invariant,
  together with the uniqueness of \<open>Payment.appointmentId\<close>.
\<close>

definition store_inv :: "DB \<Rightarrow> bool" where
  "store_inv db = (consistent db \<and> distinct (map p_appointmentId (payments db)))"

text \<open>
  Every appointment has its row of \<open>doctor_schedules\<close>.
\<close>

definition bound :: "DB \<Rightarrow> bool" where
  "bound db = (\<forall>a \<in> set (appointments db). \<exists>b \<in> set (doctor_schedules db). bindingOf a b)"

text \<open>
  Payment identifiers are unique and were drawn, and the payment that a checkout session
  names, while it exists, belongs to the appointment that the session names.
\<close>

definition ids_inv :: "World \<Rightarrow> bool" where
  "ids_inv w =
     (distinct (map p_id (payments (w_store w)))
      \<and> (\<forall>p \<in> set (payments (w_store w)). p_id p \<in> set (w_drawn w))
      \<and> (\<forall>s \<in> set (w_sessions w). snd s \<in> set (w_drawn w)
            \<and> (\<forall>p \<in> set (payments (w_store w)). p_id p = snd s \<longrightarrow> p_appointmentId p = fst s)))"

definition world_inv :: "World \<Rightarrow> bool" where
  "world_inv w = (store_inv (w_store w) \<and> bound (w_store w) \<and> ids_inv w)"

section \<open>Properties of slot generation\<close>

lemma slotStep_ensure: "slotStep zone S st = ensure st (candidate zone S)"
  by (simp add: slotStep_def ensure_def candidate_def Let_def split: option.splits)

lemma slotLoop_foldl:
  "slotLoop fuel zone S E st = map_option (foldl ensure st) (slotCands fuel zone S E)"
proof (induction fuel arbitrary: S st)
  case 0
  then show ?case by simp
next
  case (Suc fuel)
  show ?case
  proof (cases "S < E")
    case True
    then show ?thesis
      using Suc.IH[of "setMinutes_add zone S intervalTime" "slotStep zone S st"]
      by (simp add: slotStep_ensure option.map_comp comp_def)
  next
    case False
    then show ?thesis by simp
  qed
qed

lemma dayLoop_foldl:
  "dayLoop fuel inner zone p c l st = map_option (foldl ensure st) (dayCands fuel inner zone p c l)"
proof (induction fuel arbitrary: c st)
  case 0
  then show ?case by simp
next
  case (Suc fuel)
  show ?case
  proof (cases "c \<le> l")
    case False
    then show ?thesis by simp
  next
    case True
    show ?thesis
    proof (cases "slotCands inner zone (dayStart zone c (startTime p)) (dayStart zone c (endTime p))")
      case None
      then show ?thesis using True by (simp add: slotLoop_foldl)
    next
      case (Some cs)
      then show ?thesis
        using True Suc.IH[of "setDate_add zone c 1" "foldl ensure st cs"]
        by (simp add: slotLoop_foldl option.map_comp comp_def)
    qed
  qed
qed

lemma findFirst_present: "findFirst_schedule rows s e \<noteq> None \<longleftrightarrow> present rows (s, e)"
  by (auto simp: findFirst_schedule_def present_def find_None_iff)

lemma ensure_present_keep: "present (snd st) c \<Longrightarrow> present (snd (ensure st d)) c"
  by (auto simp: present_def ensure_def split: option.splits)

lemma ensure_present_new: "present (snd (ensure st c)) c"
proof (cases "findFirst_schedule (snd st) (fst c) (snd c)")
  case None
  then show ?thesis by (simp add: present_def ensure_def create_schedule_def)
next
  case (Some r)
  then have "present (snd st) (fst c, snd c)"
    using findFirst_present[of "snd st" "fst c" "snd c"] by simp
  then show ?thesis using Some by (simp add: ensure_def)
qed

lemma foldl_ensure_keep: "present (snd st) c \<Longrightarrow> present (snd (foldl ensure st cs)) c"
proof (induction cs arbitrary: st)
  case Nil
  then show ?case by simp
next
  case (Cons d cs)
  have "present (snd (ensure st d)) c" using Cons.prems by (rule ensure_present_keep)
  then show ?case using Cons.IH by simp
qed

lemma foldl_ensure_all: "c \<in> set cs \<Longrightarrow> present (snd (foldl ensure st cs)) c"
proof (induction cs arbitrary: st)
  case Nil
  then show ?case by simp
next
  case (Cons d cs)
  show ?case
  proof (cases "c = d")
    case True
    then show ?thesis
      using foldl_ensure_keep[OF ensure_present_new, of st d cs] by simp
  next
    case False
    then have "c \<in> set cs" using Cons.prems by simp
    then show ?thesis using Cons.IH by simp
  qed
qed

lemma ensure_noop: "present (snd st) c \<Longrightarrow> ensure st c = st"
  using findFirst_present[of "snd st" "fst c" "snd c"]
  by (auto simp: ensure_def split: option.splits)

lemma foldl_ensure_noop: "\<forall>c \<in> set cs. present (snd st) c \<Longrightarrow> foldl ensure st cs = st"
  by (induction cs) (simp_all add: ensure_noop)

lemma foldl_ensure_again:
  "foldl ensure ([], snd (foldl ensure st cs)) cs = ([], snd (foldl ensure st cs))"
proof -
  have "\<forall>c \<in> set cs. present (snd ([]::Schedule list, snd (foldl ensure st cs))) c"
    by (simp add: foldl_ensure_all)
  then show ?thesis by (rule foldl_ensure_noop)
qed

lemma inserIntoDB_again:
  assumes "inserIntoDB fuel zone payload rows = Some (created, rows')"
  shows "inserIntoDB fuel zone payload rows' = Some ([], rows')"
proof -
  let ?cands = "dayCands fuel fuel zone payload (startDate payload) (endDate payload)"
  from assms obtain cs where cs: "?cands = Some cs"
    and run: "foldl ensure ([], rows) cs = (created, rows')"
    by (auto simp: inserIntoDB_def dayLoop_foldl)
  have "foldl ensure ([], snd (foldl ensure ([], rows) cs)) cs
          = ([], snd (foldl ensure ([], rows) cs))"
    by (rule foldl_ensure_again)
  then have "foldl ensure ([], rows') cs = ([], rows')" by (simp add: run)
  then show ?thesis by (simp add: inserIntoDB_def dayLoop_foldl cs)
qed

lemma slotCands_returns:
  "advances zone \<Longrightarrow> nat (E - S) \<le> fuel \<Longrightarrow> slotCands fuel zone S E \<noteq> None"
proof (induction fuel arbitrary: S)
  case 0
  then show ?case by simp
next
  case (Suc fuel)
  show ?case
  proof (cases "S < E")
    case False
    then show ?thesis by simp
  next
    case True
    have "S < setMinutes_add zone S intervalTime"
      using Suc.prems(1) by (simp add: advances_def)
    then have "nat (E - setMinutes_add zone S intervalTime) \<le> fuel"
      using Suc.prems(2) True by simp
    then have "slotCands fuel zone (setMinutes_add zone S intervalTime) E \<noteq> None"
      using Suc.IH Suc.prems(1) by simp
    then show ?thesis using True by simp
  qed
qed

lemma dayStart_window: "dayStart zone c (endTime p) - dayStart zone c (startTime p) = window p"
  by (simp add: dayStart_def addMinutes_def addHours_def window_def algebra_simps)

lemma dayCands_returns:
  "advances zone \<Longrightarrow> nat (window p) \<le> inner \<Longrightarrow> nat (l + 1 - c) \<le> fuel \<Longrightarrow>
     dayCands fuel inner zone p c l \<noteq> None"
proof (induction fuel arbitrary: c)
  case 0
  then show ?case by simp
next
  case (Suc fuel)
  show ?case
  proof (cases "c \<le> l")
    case False
    then show ?thesis by simp
  next
    case True
    have "slotCands inner zone (dayStart zone c (startTime p)) (dayStart zone c (endTime p)) \<noteq> None"
      using Suc.prems(1,2) by (intro slotCands_returns) (simp_all add: dayStart_window)
    then obtain cs where cs:
      "slotCands inner zone (dayStart zone c (startTime p)) (dayStart zone c (endTime p)) = Some cs"
      by auto
    have "c < setDate_add zone c 1" using Suc.prems(1) by (simp add: advances_def)
    then have "nat (l + 1 - setDate_add zone c 1) \<le> fuel" using Suc.prems(3) True by simp
    then have "dayCands fuel inner zone p (setDate_add zone c 1) l \<noteq> None"
      using Suc.IH Suc.prems(1,2) by simp
    then show ?thesis using True cs by simp
  qed
qed

lemma inserIntoDB_returns:
  assumes "advances zone" "nat (window payload) \<le> fuel"
    "nat (endDate payload + 1 - startDate payload) \<le> fuel"
  shows "inserIntoDB fuel zone payload rows \<noteq> None"
  using dayCands_returns[OF assms(1,2,3)] by (simp add: inserIntoDB_def dayLoop_foldl)





















lemma advances_utc: "advances utc"
  by (simp add: advances_def utc_def setMinutes_add_def setDate_add_def LocalTime_def intervalTime_def)


lemmas slot_defs =
  inserIntoDB_def slotStep_def dayStart_def formatDay_def addHours_def addMinutes_def
  convertDateTime_def intervalTime_def findFirst_schedule_def create_schedule_def fresh_id_def
  setMinutes_add_def setDate_add_def LocalTime_def Let_def se_def

text \<open>
  C8. Slot generation is idempotent on the table of slots, whatever the host's time zone: a
  candidate interval that is already a row of the table is skipped (the loop body leaves
  the list of created slots and the table as they are), and when a run returns, a second
  run with the same date range and daily window, on the table that the first run left,
  returns as well, creates nothing and leaves that table as it is. A run returns on every
  host where \<open>setMinutes\<close> and \<open>setDate\<close> move a date forward, given fuel for
  the milliseconds of the window and of the date range.
\<close>

theorem inserIntoDB_idempotent:
  "(findFirst_schedule (snd st) (convertDateTime zone S)
        (convertDateTime zone (addMinutes S intervalTime)) \<noteq> None
      \<longrightarrow> slotStep zone S st = st)
   \<and> (inserIntoDB fuel zone payload rows = Some (created, rows')
      \<longrightarrow> inserIntoDB fuel zone payload rows' = Some ([], rows'))
   \<and> (advances zone \<and> nat (window payload) \<le> fuel
        \<and> nat (endDate payload + 1 - startDate payload) \<le> fuel
      \<longrightarrow> inserIntoDB fuel zone payload rows \<noteq> None)"
proof (intro conjI impI)
  assume "findFirst_schedule (snd st) (convertDateTime zone S)
          (convertDateTime zone (addMinutes S intervalTime)) \<noteq> None"
  then show "slotStep zone S st = st"
    by (auto simp: slotStep_def Let_def)
next
  assume "inserIntoDB fuel zone payload rows = Some (created, rows')"
  then show "inserIntoDB fuel zone payload rows' = Some ([], rows')"
    by (rule inserIntoDB_again)
next
  assume "advances zone \<and> nat (window payload) \<le> fuel
        \<and> nat (endDate payload + 1 - startDate payload) \<le> fuel"
  then show "inserIntoDB fuel zone payload rows \<noteq> None"
    using inserIntoDB_returns[of zone payload fuel rows] by simp
qed

theorem inserIntoDB_idempotent_witness:
  "inserIntoDB 2 anchorage
     \<lparr>startDate = 1710115200000, endDate = 1710115200000, startTime = (9, 0), endTime = (10, 0)\<rparr>
     [\<lparr>s_id = 1, s_startDateTime = 1710093600000, s_endDateTime = 1710095400000\<rparr>,
      \<lparr>s_id = 2, s_startDateTime = 1710095400000, s_endDateTime = 1710097200000\<rparr>]
   = Some ([], [\<lparr>s_id = 1, s_startDateTime = 1710093600000, s_endDateTime = 1710095400000\<rparr>,
                \<lparr>s_id = 2, s_startDateTime = 1710095400000, s_endDateTime = 1710097200000\<rparr>])
   \<and> inserIntoDB 3600000 utc
       \<lparr>startDate = 0, endDate = 0, startTime = (9, 0), endTime = (10, 0)\<rparr> [] \<noteq> None"
proof
  let ?p = "\<lparr>startDate = 1710115200000, endDate = 1710115200000,
             startTime = (9, 0), endTime = (10, 0)\<rparr>"
  let ?rows = "[\<lparr>s_id = 1, s_startDateTime = 1710093600000, s_endDateTime = 1710095400000\<rparr>,
                \<lparr>s_id = 2, s_startDateTime = 1710095400000, s_endDateTime = 1710097200000\<rparr>]"
  have run: "inserIntoDB 2 anchorage ?p [] = Some (?rows, ?rows)"
    by (simp add: slot_defs anchorage_def numeral_2_eq_2)
  show "inserIntoDB 2 anchorage ?p ?rows = Some ([], ?rows)"
    using inserIntoDB_idempotent
            [where fuel = 2 and zone = anchorage and payload = ?p and rows = "[]"
               and created = ?rows and rows' = ?rows]
          run
    by blast
next
  let ?q = "\<lparr>startDate = 0, endDate = 0, startTime = (9, 0), endTime = (10, 0)\<rparr>"
  have "advances utc \<and> nat (window ?q) \<le> 3600000 \<and> nat (endDate ?q + 1 - startDate ?q) \<le> 3600000"
    by (simp add: advances_utc window_def)
  then show "inserIntoDB 3600000 utc ?q [] \<noteq> None"
    using inserIntoDB_idempotent [where fuel = 3600000 and zone = utc and payload = ?q and rows = "[]"]
    by blast
qed




section \<open>Properties of booking and payment\<close>

lemmas store_defs =
  patient_findUniqueOrThrow_def doctor_findUniqueOrThrow_def doctorSchedules_findFirstOrThrow_def
  appointment_create_def doctorSchedules_update_def payment_create_def appointment_findUnique_def
  appointment_update_status_def appointment_update_paymentStatus_def payment_update_def
  appointment_updateMany_status_def payment_deleteMany_def transaction_def

lemmas booking_defs =
  bookingChecks_def newAppointment_def newPayment_def createAppointment_def
  createAppointmentWithPayLater_def cancelTransaction_def cancelUnpaidAppointments_def
  appointment_findMany_unpaid_def initiatePaymentForAppointment_def
  handleStripeWebhookEvent_service_def

lemmas example_defs =
  userP_def userQ_def payloadS_def uuidsP_def uuidsQ_def appointmentP_def paymentP_def
  db0_def db1_def event1_def patientQ_def doctorD_def world1_def

lemma find_Some_set: "find P xs = Some x \<Longrightarrow> x \<in> set xs \<and> P x"
  by (auto simp: find_Some_iff)

lemma find_None_set: "find P xs = None \<longleftrightarrow> (\<forall>x \<in> set xs. \<not> P x)"
  by (auto simp: find_None_iff)

lemma bookingChecks_taken:
  assumes "\<forall>b \<in> set (doctor_schedules db).
             ds_doctorId b = doctorId payload \<and> ds_scheduleId b = scheduleId payload \<longrightarrow> ds_isBooked b"
  shows "bookingChecks db user payload = Inl NotFoundError"
proof -
  have "\<And>d. doctor_findUniqueOrThrow db (doctorId payload) = Inr d \<Longrightarrow>
          doctorSchedules_findFirstOrThrow db (d_id d) (scheduleId payload) = Inl NotFoundError"
  proof -
    fix d assume "doctor_findUniqueOrThrow db (doctorId payload) = Inr d"
    then have "d_id d = doctorId payload"
      by (auto simp: doctor_findUniqueOrThrow_def split: option.splits dest: find_Some_set)
    then have "find (\<lambda>b. ds_doctorId b = d_id d \<and> ds_scheduleId b = scheduleId payload \<and> \<not> ds_isBooked b)
             (doctor_schedules db) = None"
      using assms by (auto simp: find_None_set)
    then show "doctorSchedules_findFirstOrThrow db (d_id d) (scheduleId payload) = Inl NotFoundError"
      by (simp add: doctorSchedules_findFirstOrThrow_def)
  qed
  then show ?thesis
    by (auto simp: bookingChecks_def patient_findUniqueOrThrow_def doctor_findUniqueOrThrow_def
          split: sum.splits option.splits)
qed

lemma bookingChecks_doctor:
  "bookingChecks db user payload = Inr (patientData, doctorData) \<Longrightarrow> d_id doctorData = doctorId payload"
  by (auto simp: bookingChecks_def doctor_findUniqueOrThrow_def split: sum.splits option.splits
        dest: find_Some_set)

lemma createAppointment_reserve:
  "createAppointment stripe now uuids user payload db =
     (case bookingChecks db user payload of
        Inl e \<Rightarrow> (Inl e, db)
      | Inr (patientData, doctorData) \<Rightarrow>
          (case reserve now uuids patientData doctorData payload db of
             Inl e \<Rightarrow> (Inl e, db)
           | Inr tnx3 \<Rightarrow>
               (case stripe \<lparr>customer_email = email user,
                              product_name = ''Appointment with '' @ d_name doctorData,
                              unit_amount = d_appointmentFee doctorData * 100,
                              metadata_appointmentId = u_appointmentId uuids,
                              metadata_paymentId = u_paymentId uuids\<rparr> of
                  Inl e \<Rightarrow> (Inl e, db)
                | Inr session \<Rightarrow> (Inr (session_url session), tnx3))))"
  by (simp add: createAppointment_def reserve_def transaction_def split: sum.splits prod.splits)

lemma createAppointmentWithPayLater_reserve:
  "createAppointmentWithPayLater now uuids user payload db =
     (case bookingChecks db user payload of
        Inl e \<Rightarrow> (Inl e, db)
      | Inr (patientData, doctorData) \<Rightarrow>
          (case reserve now uuids patientData doctorData payload db of
             Inl e \<Rightarrow> (Inl e, db)
           | Inr tnx3 \<Rightarrow> (Inr (newAppointment now uuids patientData doctorData payload), tnx3)))"
  by (simp add: createAppointmentWithPayLater_def reserve_def transaction_def
        split: sum.splits prod.splits)

lemma reserve_result:
  assumes "reserve now uuids patientData doctorData payload db = Inr db'"
  shows "appointments db' = appointments db @ [newAppointment now uuids patientData doctorData payload]"
    and "payments db' = payments db @ [newPayment now uuids doctorData]"
    and "doctor_schedules db' =
           map (\<lambda>b. if ds_doctorId b = d_id doctorData \<and> ds_scheduleId b = scheduleId payload
                    then b\<lparr>ds_isBooked := True\<rparr> else b) (doctor_schedules db)"
    and "patients db' = patients db" and "doctors db' = doctors db"
    and "\<forall>a \<in> set (appointments db). a_id a \<noteq> u_appointmentId uuids"
    and "\<forall>p \<in> set (payments db). p_appointmentId p \<noteq> u_appointmentId uuids"
  using assms
  by (auto simp: reserve_def appointment_create_def doctorSchedules_update_def payment_create_def
        newAppointment_def newPayment_def find_None_set
        split: sum.splits option.splits)

lemma reserve_booked:
  assumes "reserve now uuids patientData doctorData payload db = Inr db'"
    and "d_id doctorData = doctorId payload"
  shows "\<forall>b \<in> set (doctor_schedules db').
           ds_doctorId b = doctorId payload \<and> ds_scheduleId b = scheduleId payload \<longrightarrow> ds_isBooked b"
  using reserve_result(3)[OF assms(1)] assms(2) by auto

lemma createAppointment_booked:
  assumes "fst (createAppointment stripe now uuids user payload db) = Inr url"
  shows "\<forall>b \<in> set (doctor_schedules (snd (createAppointment stripe now uuids user payload db))).
           ds_doctorId b = doctorId payload \<and> ds_scheduleId b = scheduleId payload \<longrightarrow> ds_isBooked b"
proof (cases "bookingChecks db user payload")
  case (Inl e)
  then show ?thesis using assms by (simp add: createAppointment_reserve)
next
  case (Inr pd)
  obtain patientData doctorData where pd: "pd = (patientData, doctorData)" by (cases pd)
  have doc: "d_id doctorData = doctorId payload"
    using Inr pd by (auto dest: bookingChecks_doctor)
  show ?thesis
  proof (cases "reserve now uuids patientData doctorData payload db")
    case (Inl e)
    then show ?thesis using assms Inr pd by (simp add: createAppointment_reserve)
  next
    case res: (Inr db')
    have "snd (createAppointment stripe now uuids user payload db) = db'"
      using assms Inr pd res by (simp add: createAppointment_reserve split: sum.splits)
    then show ?thesis using reserve_booked[OF res doc] by simp
  qed
qed

lemma createAppointmentWithPayLater_booked:
  assumes "fst (createAppointmentWithPayLater now uuids user payload db) = Inr appointment"
  shows "\<forall>b \<in> set (doctor_schedules (snd (createAppointmentWithPayLater now uuids user payload db))).
           ds_doctorId b = doctorId payload \<and> ds_scheduleId b = scheduleId payload \<longrightarrow> ds_isBooked b"
proof (cases "bookingChecks db user payload")
  case (Inl e)
  then show ?thesis using assms by (simp add: createAppointmentWithPayLater_reserve)
next
  case (Inr pd)
  obtain patientData doctorData where pd: "pd = (patientData, doctorData)" by (cases pd)
  have doc: "d_id doctorData = doctorId payload"
    using Inr pd by (auto dest: bookingChecks_doctor)
  show ?thesis
  proof (cases "reserve now uuids patientData doctorData payload db")
    case (Inl e)
    then show ?thesis using assms Inr pd by (simp add: createAppointmentWithPayLater_reserve)
  next
    case res: (Inr db')
    have "snd (createAppointmentWithPayLater now uuids user payload db) = db'"
      using assms Inr pd res by (simp add: createAppointmentWithPayLater_reserve)
    then show ?thesis using reserve_booked[OF res doc] by simp
  qed
qed

lemma taken_fails:
  assumes "\<forall>b \<in> set (doctor_schedules db).
             ds_doctorId b = doctorId payload \<and> ds_scheduleId b = scheduleId payload \<longrightarrow> ds_isBooked b"
  shows "createAppointment stripe now uuids user payload db = (Inl NotFoundError, db)"
    and "createAppointmentWithPayLater now uuids user payload db = (Inl NotFoundError, db)"
  using bookingChecks_taken[OF assms, of user]
  by (simp_all add: createAppointment_def createAppointmentWithPayLater_def)

lemma payLater_example:
  "createAppointmentWithPayLater 0 uuidsP userP payloadS db0 = (Inr appointmentP, db1)"
  by (simp add: store_defs booking_defs example_defs)

text \<open>
  C7. Once the webhook secret is configured and the signature of the payload verifies
  (\<open>constructEvent\<close> returns the event), the controller answers with status 200 and
  \<open>success: true\<close> whatever the service does with the event, also when the service
  throws; the store is the one the service left.
\<close>

theorem webhook_always_acknowledged:
  assumes "stripeWebhookSecret config = Some secret" and "secret \<noteq> []"
    and "constructEvent (req_body req) (req_signature req) secret = Inr event"
  shows "statusCode (fst (handleStripeWebhookEvent service constructEvent config req db)) = 200
     \<and> success (fst (handleStripeWebhookEvent service constructEvent config req db)) = Some True
     \<and> snd (handleStripeWebhookEvent service constructEvent config req db) = snd (service event db)"
  using assms by (simp add: handleStripeWebhookEvent_def split: prod.splits sum.splits)

theorem webhook_always_acknowledged_witness:
  "statusCode (fst (handleStripeWebhookEvent (\<lambda>ev db. (Inl MalformedEvent, db))
       (\<lambda>body sig secret. Inr \<lparr>ev_id = ''evt_1'', ev_type = SessionCompleted,
           ev_appointmentId = None, ev_paymentId = None, ev_session = body\<rparr>)
       \<lparr>stripeWebhookSecret = Some ''whsec''\<rparr>
       \<lparr>req_body = ''{}'', req_signature = ''t=1,v1=ab''\<rparr>
       db0)) = 200"
  using webhook_always_acknowledged
    [where config = "\<lparr>stripeWebhookSecret = Some ''whsec''\<rparr>" and secret = "''whsec''"
       and req = "\<lparr>req_body = ''{}'', req_signature = ''t=1,v1=ab''\<rparr>"
       and constructEvent = "\<lambda>body sig secret. Inr \<lparr>ev_id = ''evt_1'', ev_type = SessionCompleted,
           ev_appointmentId = None, ev_paymentId = None, ev_session = body\<rparr>"
       and service = "\<lambda>ev db. (Inl MalformedEvent, db)"
       and db = "db0"]
  by simp

text \<open>
  C10. \<open>initiatePaymentForAppointment\<close> leaves the store as it is for every input, and it
  fails when no appointment with the given identifier belongs to a patient with the
  caller's email, when the payment status is not UNPAID, and when the status is CANCELED.
\<close>

theorem initiatePayment_read_only:
  "snd (initiatePaymentForAppointment stripe appointmentId user db) = db
   \<and> ((\<forall>a \<in> set (appointments db). a_id a = appointmentId \<longrightarrow>
          (\<forall>pt \<in> set (patients db). pt_email pt = email user \<longrightarrow> a_patientId a \<noteq> pt_id pt))
        \<longrightarrow> isl (fst (initiatePaymentForAppointment stripe appointmentId user db)))
   \<and> ((\<forall>a \<in> set (appointments db). a_id a = appointmentId \<longrightarrow> a_paymentStatus a \<noteq> UNPAID)
        \<longrightarrow> isl (fst (initiatePaymentForAppointment stripe appointmentId user db)))
   \<and> ((\<forall>a \<in> set (appointments db). a_id a = appointmentId \<longrightarrow> a_status a = CANCELED)
        \<longrightarrow> isl (fst (initiatePaymentForAppointment stripe appointmentId user db)))"
proof (intro conjI impI)
  show "snd (initiatePaymentForAppointment stripe appointmentId user db) = db"
    by (simp add: initiatePaymentForAppointment_def split: sum.splits option.splits)
next
  assume h: "\<forall>a \<in> set (appointments db). a_id a = appointmentId \<longrightarrow>
          (\<forall>pt \<in> set (patients db). pt_email pt = email user \<longrightarrow> a_patientId a \<noteq> pt_id pt)"
  show "isl (fst (initiatePaymentForAppointment stripe appointmentId user db))"
    using h
    by (auto simp: initiatePaymentForAppointment_def patient_findUniqueOrThrow_def
          split: sum.splits option.splits dest!: find_Some_set)
next
  assume h: "\<forall>a \<in> set (appointments db). a_id a = appointmentId \<longrightarrow> a_paymentStatus a \<noteq> UNPAID"
  show "isl (fst (initiatePaymentForAppointment stripe appointmentId user db))"
    using h
    by (auto simp: initiatePaymentForAppointment_def
          split: sum.splits option.splits dest!: find_Some_set)
next
  assume h: "\<forall>a \<in> set (appointments db). a_id a = appointmentId \<longrightarrow> a_status a = CANCELED"
  show "isl (fst (initiatePaymentForAppointment stripe appointmentId user db))"
    using h
    by (auto simp: initiatePaymentForAppointment_def
          split: sum.splits option.splits dest!: find_Some_set)
qed

theorem initiatePayment_read_only_witness:
  "initiatePaymentForAppointment (\<lambda>q. Inr \<lparr>session_id = ''cs_1'', session_url = ''https://pay''\<rparr>)
      ''a1'' userQ db1 = (Inl (ApiError 400 ''Appointment not found or unauthorized''), db1)
   \<and> isl (fst (initiatePaymentForAppointment
      (\<lambda>q. Inr \<lparr>session_id = ''cs_1'', session_url = ''https://pay''\<rparr>) ''a1'' userQ db1))"
proof -
  have "\<forall>a \<in> set (appointments db1). a_id a = ''a1'' \<longrightarrow>
          (\<forall>pt \<in> set (patients db1). pt_email pt = email userQ \<longrightarrow> a_patientId a \<noteq> pt_id pt)"
    by (simp add: example_defs)
  then have "isl (fst (initiatePaymentForAppointment
      (\<lambda>q. Inr \<lparr>session_id = ''cs_1'', session_url = ''https://pay''\<rparr>) ''a1'' userQ db1))"
    using initiatePayment_read_only
      [of "\<lambda>q. Inr \<lparr>session_id = ''cs_1'', session_url = ''https://pay''\<rparr>" "''a1''" userQ db1]
    by blast
  moreover have "initiatePaymentForAppointment
      (\<lambda>q. Inr \<lparr>session_id = ''cs_1'', session_url = ''https://pay''\<rparr>)
      ''a1'' userQ db1 = (Inl (ApiError 400 ''Appointment not found or unauthorized''), db1)"
    by (simp add: store_defs booking_defs example_defs)
  ultimately show ?thesis by simp
qed

lemma transaction_fail: "body db = Inl e \<Longrightarrow> transaction body db = (Inl e, db)"
  by (simp add: transaction_def)

text \<open>
  C9. When the request for a checkout session fails, \<open>createAppointment\<close> fails and the
  store is as it was before the call: the appointment, the booked flag and the payment
  record written in the transaction are rolled back.
\<close>

theorem createAppointment_rolls_back:
  assumes "\<And>q. isl (stripe q)"
  shows "isl (fst (createAppointment stripe now uuids user payload db))
     \<and> snd (createAppointment stripe now uuids user payload db) = db"
proof (cases "bookingChecks db user payload")
  case (Inl e)
  then show ?thesis by (simp add: createAppointment_def)
next
  case (Inr pd)
  obtain patientData doctorData where pd: "pd = (patientData, doctorData)" by (cases pd)
  let ?body = "\<lambda>tnx.
            case appointment_create tnx (newAppointment now uuids patientData doctorData payload) of
              Inl e \<Rightarrow> Inl e
            | Inr tnx1 \<Rightarrow>
            (case doctorSchedules_update tnx1 (d_id doctorData) (scheduleId payload) True of
              Inl e \<Rightarrow> Inl e
            | Inr tnx2 \<Rightarrow>
            (case payment_create tnx2 (newPayment now uuids doctorData) of
              Inl e \<Rightarrow> Inl e
            | Inr tnx3 \<Rightarrow>
            (case stripe \<lparr>customer_email = email user,
                           product_name = ''Appointment with '' @ d_name doctorData,
                           unit_amount = d_appointmentFee doctorData * 100,
                           metadata_appointmentId = u_appointmentId uuids,
                           metadata_paymentId = u_paymentId uuids\<rparr> of
              Inl e \<Rightarrow> Inl e
            | Inr session \<Rightarrow> Inr (session_url session, tnx3))))"
  have nofail: "\<And>q s. stripe q \<noteq> Inr s"
    using assms by (metis sum.disc(2))
  have "isl (?body db)"
    by (auto simp: nofail split: sum.splits)
  then obtain e where "?body db = Inl e" by (cases "?body db") auto
  then have "transaction ?body db = (Inl e, db)" by (rule transaction_fail)
  then show ?thesis using Inr pd by (simp add: createAppointment_def)
qed


theorem createAppointment_rolls_back_witness:
  "createAppointment (\<lambda>q. Inl (StripeError ''timeout'')) 0 uuidsP userP payloadS db0
     = (Inl (StripeError ''timeout''), db0)
   \<and> snd (createAppointment (\<lambda>q. Inl (StripeError ''timeout'')) 0 uuidsP userP payloadS db0) = db0"
proof -
  have "\<And>q. isl ((\<lambda>q. Inl (StripeError ''timeout'') :: error + Session) q)" by simp
  then have "snd (createAppointment (\<lambda>q. Inl (StripeError ''timeout'')) 0 uuidsP userP payloadS db0) = db0"
    using createAppointment_rolls_back
      [of "\<lambda>q. Inl (StripeError ''timeout'')" 0 uuidsP userP payloadS db0] by blast
  moreover have "createAppointment (\<lambda>q. Inl (StripeError ''timeout'')) 0 uuidsP userP payloadS db0
     = (Inl (StripeError ''timeout''), db0)"
    by (simp add: store_defs booking_defs example_defs)
  ultimately show ?thesis by simp
qed

section \<open>Properties of the sweep\<close>

lemma doctorSchedules_update_Inr:
  "doctorSchedules_update db d s v = Inr db' \<Longrightarrow>
     db' = db\<lparr>doctor_schedules :=
              map (\<lambda>b. if ds_doctorId b = d \<and> ds_scheduleId b = s then b\<lparr>ds_isBooked := v\<rparr> else b)
                (doctor_schedules db)\<rparr>"
  by (simp add: doctorSchedules_update_def split: option.splits)

lemma doctorSchedules_update_ok:
  "\<exists>b \<in> set (doctor_schedules db). ds_doctorId b = d \<and> ds_scheduleId b = s \<Longrightarrow>
     \<exists>db'. doctorSchedules_update db d s v = Inr db'"
  by (auto simp: doctorSchedules_update_def find_None_set split: option.splits)

lemma doctorSchedules_update_missing:
  "\<not> (\<exists>b \<in> set (doctor_schedules db). ds_doctorId b = d \<and> ds_scheduleId b = s) \<Longrightarrow>
     doctorSchedules_update db d s v = Inl NotFoundError"
  by (auto simp: doctorSchedules_update_def find_None_set split: option.splits dest: find_Some_set)

lemma released_Cons:
  "released rest (if ds_doctorId b = a_doctorId a \<and> ds_scheduleId b = a_scheduleId a
                  then b\<lparr>ds_isBooked := False\<rparr> else b) = released (a # rest) b"
  by (auto simp: released_def bindingOf_def)

lemma freeSchedules_Inr:
  "freeSchedules unPaid db = Inr db' \<Longrightarrow>
     db' = db\<lparr>doctor_schedules := map (released unPaid) (doctor_schedules db)\<rparr>"
proof (induction unPaid arbitrary: db)
  case Nil
  then show ?case by (simp add: released_def)
next
  case (Cons a rest)
  from Cons.prems obtain db1 where
    upd: "doctorSchedules_update db (a_doctorId a) (a_scheduleId a) False = Inr db1"
    and rest: "freeSchedules rest db1 = Inr db'"
    by (auto split: sum.splits)
  have db1: "db1 = db\<lparr>doctor_schedules :=
              map (\<lambda>b. if ds_doctorId b = a_doctorId a \<and> ds_scheduleId b = a_scheduleId a
                       then b\<lparr>ds_isBooked := False\<rparr> else b) (doctor_schedules db)\<rparr>"
    using upd by (rule doctorSchedules_update_Inr)
  have step: "db' = db1\<lparr>doctor_schedules := map (released rest) (doctor_schedules db1)\<rparr>"
    using rest by (rule Cons.IH)
  have "map (released rest) (doctor_schedules db1) = map (released (a # rest)) (doctor_schedules db)"
    by (simp add: db1 released_Cons comp_def)
  then show ?case using step by (simp add: db1)
qed

lemma freeSchedules_ok:
  "\<forall>a \<in> set unPaid. \<exists>b \<in> set (doctor_schedules db). bindingOf a b \<Longrightarrow>
     \<exists>db'. freeSchedules unPaid db = Inr db'"
proof (induction unPaid arbitrary: db)
  case Nil
  then show ?case by simp
next
  case (Cons a rest)
  have "\<exists>b \<in> set (doctor_schedules db). ds_doctorId b = a_doctorId a \<and> ds_scheduleId b = a_scheduleId a"
    using Cons.prems by (simp add: bindingOf_def)
  then obtain db1 where
    upd: "doctorSchedules_update db (a_doctorId a) (a_scheduleId a) False = Inr db1"
    using doctorSchedules_update_ok by blast
  have db1: "db1 = db\<lparr>doctor_schedules :=
              map (\<lambda>b. if ds_doctorId b = a_doctorId a \<and> ds_scheduleId b = a_scheduleId a
                       then b\<lparr>ds_isBooked := False\<rparr> else b) (doctor_schedules db)\<rparr>"
    using upd by (rule doctorSchedules_update_Inr)
  have "\<forall>a' \<in> set rest. \<exists>b \<in> set (doctor_schedules db1). bindingOf a' b"
  proof
    fix a' assume "a' \<in> set rest"
    then obtain b where b: "b \<in> set (doctor_schedules db)" "bindingOf a' b"
      using Cons.prems by auto
    let ?b = "if ds_doctorId b = a_doctorId a \<and> ds_scheduleId b = a_scheduleId a
              then b\<lparr>ds_isBooked := False\<rparr> else b"
    have "?b \<in> set (doctor_schedules db1)" using b(1) by (simp add: db1)
    moreover have "bindingOf a' ?b" using b(2) by (simp add: bindingOf_def)
    ultimately show "\<exists>b \<in> set (doctor_schedules db1). bindingOf a' b" by blast
  qed
  then obtain db' where "freeSchedules rest db1 = Inr db'" using Cons.IH by blast
  then show ?case using upd by simp
qed


lemma freeSchedules_missing:
  "\<not> (\<forall>a \<in> set unPaid. \<exists>b \<in> set (doctor_schedules db). bindingOf a b) \<Longrightarrow>
     freeSchedules unPaid db = Inl NotFoundError"
proof (induction unPaid arbitrary: db)
  case Nil
  then show ?case by simp
next
  case (Cons a rest)
  show ?case
  proof (cases "\<exists>b \<in> set (doctor_schedules db). ds_doctorId b = a_doctorId a \<and> ds_scheduleId b = a_scheduleId a")
    case False
    then show ?thesis by (simp add: doctorSchedules_update_missing)
  next
    case True
    then obtain db1 where
      upd: "doctorSchedules_update db (a_doctorId a) (a_scheduleId a) False = Inr db1"
      using doctorSchedules_update_ok by blast
    have db1: "db1 = db\<lparr>doctor_schedules :=
              map (\<lambda>b. if ds_doctorId b = a_doctorId a \<and> ds_scheduleId b = a_scheduleId a
                       then b\<lparr>ds_isBooked := False\<rparr> else b) (doctor_schedules db)\<rparr>"
      using upd by (rule doctorSchedules_update_Inr)
    from Cons.prems True obtain a' where a': "a' \<in> set rest"
      "\<not> (\<exists>b \<in> set (doctor_schedules db). bindingOf a' b)"
      by (auto simp: bindingOf_def)
    have "\<not> (\<exists>b \<in> set (doctor_schedules db1). bindingOf a' b)"
      using a'(2) by (auto simp: db1 bindingOf_def split: if_splits)
    then have "\<not> (\<forall>a \<in> set rest. \<exists>b \<in> set (doctor_schedules db1). bindingOf a b)"
      using a'(1) by blast
    then have "freeSchedules rest db1 = Inl NotFoundError" by (rule Cons.IH)
    then show ?thesis using upd by simp
  qed
qed

lemma cancelTransaction_ok:
  assumes "\<forall>a \<in> set unPaid. \<exists>b \<in> set (doctor_schedules db). bindingOf a b"
  shows "cancelTransaction unPaid db = (Inr (), swept unPaid db)"
proof -
  let ?tnx = "payment_deleteMany (appointment_updateMany_status db (map a_id unPaid) CANCELED)
                (map a_id unPaid)"
  have "doctor_schedules ?tnx = doctor_schedules db"
    by (simp add: payment_deleteMany_def appointment_updateMany_status_def)
  then obtain db' where free: "freeSchedules unPaid ?tnx = Inr db'"
    using freeSchedules_ok[of unPaid ?tnx] assms by auto
  have "db' = ?tnx\<lparr>doctor_schedules := map (released unPaid) (doctor_schedules ?tnx)\<rparr>"
    using free by (rule freeSchedules_Inr)
  then have "db' = swept unPaid db"
    by (simp add: swept_def payment_deleteMany_def appointment_updateMany_status_def)
  then show ?thesis using free by (simp add: cancelTransaction_def transaction_def)
qed

lemma cancelTransaction_missing:
  assumes "\<not> (\<forall>a \<in> set unPaid. \<exists>b \<in> set (doctor_schedules db). bindingOf a b)"
  shows "cancelTransaction unPaid db = (Inl NotFoundError, db)"
proof -
  let ?tnx = "payment_deleteMany (appointment_updateMany_status db (map a_id unPaid) CANCELED)
                (map a_id unPaid)"
  have "doctor_schedules ?tnx = doctor_schedules db"
    by (simp add: payment_deleteMany_def appointment_updateMany_status_def)
  then have "freeSchedules unPaid ?tnx = Inl NotFoundError"
    using freeSchedules_missing[of unPaid ?tnx] assms by auto
  then show ?thesis by (simp add: cancelTransaction_def transaction_def)
qed

lemma cancelTransaction_cases:
  "cancelTransaction unPaid db = (Inr (), swept unPaid db)
   \<or> cancelTransaction unPaid db = (Inl NotFoundError, db)"
  using cancelTransaction_ok cancelTransaction_missing by blast

section \<open>Properties of payment confirmation\<close>

lemma paid_example:
  "handleStripeWebhookEvent_service event1 db1 = (Inr PaymentPaid, paid ''a1'' ''pay1'' event1 db1)"
  by (simp add: store_defs booking_defs example_defs paid_def)

lemma service_gate:
  assumes "\<exists>p \<in> set (payments db). p_stripeEventId p = Some (ev_id event)"
  shows "handleStripeWebhookEvent_service event db = (Inr AlreadyProcessed, db)"
proof -
  have "find (\<lambda>p. p_stripeEventId p = Some (ev_id event)) (payments db) \<noteq> None"
    using assms by (simp add: find_None_set)
  then show ?thesis by (auto simp: handleStripeWebhookEvent_service_def)
qed

lemma service_cases:
  "(fst (handleStripeWebhookEvent_service event db) \<noteq> Inr PaymentPaid
      \<and> snd (handleStripeWebhookEvent_service event db) = db)
   \<or> (\<exists>appointmentId paymentId.
         ev_type event = SessionCompleted
       \<and> ev_appointmentId event = Some appointmentId \<and> ev_paymentId event = Some paymentId
       \<and> (\<exists>a \<in> set (appointments db). a_id a = appointmentId)
       \<and> (\<exists>p \<in> set (payments db). p_id p = paymentId)
       \<and> (\<forall>p \<in> set (payments db). p_stripeEventId p \<noteq> Some (ev_id event))
       \<and> handleStripeWebhookEvent_service event db
           = (Inr PaymentPaid, paid appointmentId paymentId event db))"
  by (auto simp: handleStripeWebhookEvent_service_def transaction_def paid_def
        appointment_update_paymentStatus_def appointment_findUnique_def payment_update_def
        find_None_set
        split: option.splits sum.splits EventKind.splits prod.splits dest: find_Some_set)

lemma paid_marks_event:
  assumes "\<exists>p \<in> set (payments db). p_id p = paymentId"
  shows "\<exists>p \<in> set (payments (paid appointmentId paymentId event db)). p_stripeEventId p = Some (ev_id event)"
proof -
  from assms obtain p where p: "p \<in> set (payments db)" "p_id p = paymentId" by blast
  let ?p = "p\<lparr>p_status := PAID, p_paymentGatewayData := Some (ev_session event),
               p_stripeEventId := Some (ev_id event)\<rparr>"
  have "?p \<in> set (payments (paid appointmentId paymentId event db))"
    using p by (force simp: paid_def)
  then show ?thesis by force
qed

lemma service_idempotent:
  "snd (handleStripeWebhookEvent_service event (snd (handleStripeWebhookEvent_service event db)))
     = snd (handleStripeWebhookEvent_service event db)"
proof -
  from service_cases[of event db] show ?thesis
  proof
    assume "fst (handleStripeWebhookEvent_service event db) \<noteq> Inr PaymentPaid
      \<and> snd (handleStripeWebhookEvent_service event db) = db"
    then show ?thesis by simp
  next
    assume "\<exists>appointmentId paymentId.
         ev_type event = SessionCompleted
       \<and> ev_appointmentId event = Some appointmentId \<and> ev_paymentId event = Some paymentId
       \<and> (\<exists>a \<in> set (appointments db). a_id a = appointmentId)
       \<and> (\<exists>p \<in> set (payments db). p_id p = paymentId)
       \<and> (\<forall>p \<in> set (payments db). p_stripeEventId p \<noteq> Some (ev_id event))
       \<and> handleStripeWebhookEvent_service event db
           = (Inr PaymentPaid, paid appointmentId paymentId event db)"
    then obtain appointmentId paymentId where
      ex: "\<exists>p \<in> set (payments db). p_id p = paymentId"
      and run: "handleStripeWebhookEvent_service event db
           = (Inr PaymentPaid, paid appointmentId paymentId event db)"
      by blast
    have "handleStripeWebhookEvent_service event (paid appointmentId paymentId event db)
            = (Inr AlreadyProcessed, paid appointmentId paymentId event db)"
      using paid_marks_event[OF ex] by (rule service_gate)
    then show ?thesis by (simp add: run)
  qed
qed

lemma deliveries_Suc:
  "deliveries (Suc n) event db = snd (handleStripeWebhookEvent_service event db)"
proof (induction n arbitrary: db)
  case 0
  then show ?case by simp
next
  case (Suc n)
  have "deliveries (Suc (Suc n)) event db
          = deliveries (Suc n) event (snd (handleStripeWebhookEvent_service event db))"
    by simp
  also have "\<dots> = snd (handleStripeWebhookEvent_service event (snd (handleStripeWebhookEvent_service event db)))"
    by (rule Suc.IH)
  also have "\<dots> = snd (handleStripeWebhookEvent_service event db)"
    by (rule service_idempotent)
  finally show ?case .
qed

text \<open>
  C1. An event whose identifier is already the \<open>stripeEventId\<close> of a payment is
  acknowledged as processed and the store stays as it is, and the controller answers such
  a verified event with status 200 and \<open>success: true\<close>; and any number of deliveries
  of one event, one after the other, leaves the store that the first delivery leaves.
\<close>

theorem replay_idempotent:
  "((\<exists>p \<in> set (payments db). p_stripeEventId p = Some (ev_id event))
      \<longrightarrow> handleStripeWebhookEvent_service event db = (Inr AlreadyProcessed, db)
        \<and> (stripeWebhookSecret config = Some secret \<and> secret \<noteq> []
             \<and> constructEvent (req_body req) (req_signature req) secret = Inr event
           \<longrightarrow> handleStripeWebhookEvent handleStripeWebhookEvent_service constructEvent config req db
                 = (\<lparr>statusCode = 200, success = Some True,
                     message = ''Webhook processed successfully''\<rparr>, db)))
   \<and> deliveries (Suc n) event db = snd (handleStripeWebhookEvent_service event db)"
proof (intro conjI impI)
  assume seen: "\<exists>p \<in> set (payments db). p_stripeEventId p = Some (ev_id event)"
  then show gate: "handleStripeWebhookEvent_service event db = (Inr AlreadyProcessed, db)"
    by (rule service_gate)
  assume "stripeWebhookSecret config = Some secret \<and> secret \<noteq> []
             \<and> constructEvent (req_body req) (req_signature req) secret = Inr event"
  then show "handleStripeWebhookEvent handleStripeWebhookEvent_service constructEvent config req db
                 = (\<lparr>statusCode = 200, success = Some True,
                     message = ''Webhook processed successfully''\<rparr>, db)"
    by (simp add: handleStripeWebhookEvent_def gate)
next
  show "deliveries (Suc n) event db = snd (handleStripeWebhookEvent_service event db)"
    by (rule deliveries_Suc)
qed

theorem replay_idempotent_witness:
  "handleStripeWebhookEvent_service event1 (paid ''a1'' ''pay1'' event1 db1)
     = (Inr AlreadyProcessed, paid ''a1'' ''pay1'' event1 db1)
   \<and> handleStripeWebhookEvent handleStripeWebhookEvent_service (\<lambda>body sig secret. Inr event1)
       \<lparr>stripeWebhookSecret = Some ''whsec''\<rparr> \<lparr>req_body = ''{}'', req_signature = ''t=1,v1=ab''\<rparr>
       (paid ''a1'' ''pay1'' event1 db1)
     = (\<lparr>statusCode = 200, success = Some True, message = ''Webhook processed successfully''\<rparr>,
        paid ''a1'' ''pay1'' event1 db1)
   \<and> deliveries 1000 event1 db1 = paid ''a1'' ''pay1'' event1 db1"
proof -
  have seen: "\<exists>p \<in> set (payments (paid ''a1'' ''pay1'' event1 db1)). p_stripeEventId p = Some (ev_id event1)"
    by (simp add: paid_def example_defs)
  have verified: "stripeWebhookSecret \<lparr>stripeWebhookSecret = Some ''whsec''\<rparr> = Some ''whsec'' \<and> ''whsec'' \<noteq> []
      \<and> (\<lambda>body sig secret. Inr event1) (req_body \<lparr>req_body = ''{}'', req_signature = ''t=1,v1=ab''\<rparr>)
            (req_signature \<lparr>req_body = ''{}'', req_signature = ''t=1,v1=ab''\<rparr>) ''whsec''
          = (Inr event1 :: string + Event)"
    by simp
  have "handleStripeWebhookEvent_service event1 (paid ''a1'' ''pay1'' event1 db1)
     = (Inr AlreadyProcessed, paid ''a1'' ''pay1'' event1 db1)
   \<and> handleStripeWebhookEvent handleStripeWebhookEvent_service (\<lambda>body sig secret. Inr event1)
       \<lparr>stripeWebhookSecret = Some ''whsec''\<rparr> \<lparr>req_body = ''{}'', req_signature = ''t=1,v1=ab''\<rparr>
       (paid ''a1'' ''pay1'' event1 db1)
     = (\<lparr>statusCode = 200, success = Some True, message = ''Webhook processed successfully''\<rparr>,
        paid ''a1'' ''pay1'' event1 db1)"
    using replay_idempotent
      [where db = "paid ''a1'' ''pay1'' event1 db1" and event = event1 and n = 0
         and config = "\<lparr>stripeWebhookSecret = Some ''whsec''\<rparr>" and secret = "''whsec''"
         and constructEvent = "\<lambda>body sig secret. Inr event1"
         and req = "\<lparr>req_body = ''{}'', req_signature = ''t=1,v1=ab''\<rparr>"]
      seen verified
    by blast
  moreover have "deliveries (Suc 999) event1 db1 = snd (handleStripeWebhookEvent_service event1 db1)"
    using replay_idempotent [where db = db1 and event = event1 and n = 999] by blast
  ultimately show ?thesis by (simp add: paid_example)
qed

section \<open>The payment invariant\<close>

lemma consistent_preserved:
  assumes "consistent db"
    and "set (appointments db') \<subseteq> f ` set (appointments db)"
    and "set (payments db') \<subseteq> set (payments db)"
    and "\<And>a. a_id (f a) = a_id a"
    and "\<And>a. a_paymentStatus (f a) = a_paymentStatus a"
  shows "consistent db'"
  unfolding consistent_def
proof (intro ballI impI)
  fix a' p
  assume a': "a' \<in> set (appointments db')" and p: "p \<in> set (payments db')"
    and own: "p_appointmentId p = a_id a'"
  from a' assms(2) obtain a where a: "a \<in> set (appointments db)" "a' = f a" by blast
  have p0: "p \<in> set (payments db)" using p assms(3) by blast
  have "p_appointmentId p = a_id a" using own a(2) assms(4) by simp
  then have "a_paymentStatus a = PAID \<longleftrightarrow> p_status p = PAID"
    using assms(1) a(1) p0 unfolding consistent_def by blast
  then show "a_paymentStatus a' = PAID \<longleftrightarrow> p_status p = PAID"
    using a(2) assms(5) by simp
qed

lemma store_inv_preserved:
  assumes "store_inv db"
    and "set (appointments db') \<subseteq> f ` set (appointments db)"
    and "payments db' = filter P (payments db)"
    and "\<And>a. a_id (f a) = a_id a"
    and "\<And>a. a_paymentStatus (f a) = a_paymentStatus a"
  shows "store_inv db'"
proof -
  have "set (payments db') \<subseteq> set (payments db)" using assms(3) by auto
  then have "consistent db'"
    using consistent_preserved[of db db' f] assms unfolding store_inv_def by blast
  moreover have "distinct (map p_appointmentId (payments db'))"
    using assms(1) unfolding store_inv_def assms(3) by (simp add: distinct_map_filter)
  ultimately show ?thesis unfolding store_inv_def by simp
qed

lemma sweep_inv:
  assumes "store_inv db"
  shows "store_inv (snd (cancelUnpaidAppointments now db))"
proof -
  let ?sel = "appointment_findMany_unpaid db (now - 1800000)"
  let ?f = "\<lambda>a. if a_id a \<in> set (map a_id ?sel) then a\<lparr>a_status := CANCELED\<rparr> else a"
  have "store_inv (swept ?sel db)"
  proof (rule store_inv_preserved[OF assms, of _ ?f "\<lambda>p. p_appointmentId p \<notin> set (map a_id ?sel)"])
    show "set (appointments (swept ?sel db)) \<subseteq> ?f ` set (appointments db)"
      by (simp add: swept_def)
    show "payments (swept ?sel db) = filter (\<lambda>p. p_appointmentId p \<notin> set (map a_id ?sel)) (payments db)"
      by (simp add: swept_def)
    show "\<And>a. a_id (?f a) = a_id a" by simp
    show "\<And>a. a_paymentStatus (?f a) = a_paymentStatus a" by simp
  qed
  then show ?thesis
    using cancelTransaction_cases[of ?sel db] assms
    by (auto simp: cancelUnpaidAppointments_def)
qed

lemma status_inv:
  assumes "store_inv db"
  shows "store_inv (snd (updateAppointmentStatus appointmentId st user db))"
proof (cases "snd (updateAppointmentStatus appointmentId st user db) = db")
  case True
  then show ?thesis using assms by simp
next
  case False
  let ?f = "\<lambda>a. if a_id a = appointmentId then a\<lparr>a_status := st\<rparr> else a"
  have shape: "snd (updateAppointmentStatus appointmentId st user db)
          = db\<lparr>appointments := map ?f (appointments db)\<rparr>"
    using False
    by (auto simp: updateAppointmentStatus_def appointment_update_status_def
          split: option.splits sum.splits if_splits)
  show ?thesis
  proof (rule store_inv_preserved[OF assms, of _ ?f "\<lambda>p. True"])
    show "set (appointments (snd (updateAppointmentStatus appointmentId st user db)))
            \<subseteq> ?f ` set (appointments db)"
      by (simp add: shape)
    show "payments (snd (updateAppointmentStatus appointmentId st user db)) = filter (\<lambda>p. True) (payments db)"
      by (simp add: shape)
    show "\<And>a. a_id (?f a) = a_id a" by simp
    show "\<And>a. a_paymentStatus (?f a) = a_paymentStatus a" by simp
  qed
qed


lemma reserve_inv:
  assumes "store_inv db" and res: "reserve now uuids patientData doctorData payload db = Inr db'"
  shows "store_inv db'"
proof -
  let ?a = "newAppointment now uuids patientData doctorData payload"
  let ?p = "newPayment now uuids doctorData"
  have apps: "appointments db' = appointments db @ [?a]" using res by (rule reserve_result(1))
  have pays: "payments db' = payments db @ [?p]" using res by (rule reserve_result(2))
  have fresh_a: "\<forall>a \<in> set (appointments db). a_id a \<noteq> u_appointmentId uuids"
    using res by (rule reserve_result(6))
  have fresh_p: "\<forall>p \<in> set (payments db). p_appointmentId p \<noteq> u_appointmentId uuids"
    using res by (rule reserve_result(7))
  have ida: "a_id ?a = u_appointmentId uuids" "a_paymentStatus ?a = UNPAID"
    by (simp_all add: newAppointment_def)
  have idp: "p_appointmentId ?p = u_appointmentId uuids" "p_status ?p = UNPAID"
    by (simp_all add: newPayment_def)
  have old: "consistent db" using assms(1) by (simp add: store_inv_def)
  have "consistent db'"
    unfolding consistent_def
  proof (intro ballI impI)
    fix a p
    assume a: "a \<in> set (appointments db')" and p: "p \<in> set (payments db')"
      and own: "p_appointmentId p = a_id a"
    have a_cases: "a \<in> set (appointments db) \<or> a = ?a" using a by (auto simp: apps)
    have p_cases: "p \<in> set (payments db) \<or> p = ?p" using p by (auto simp: pays)
    show "a_paymentStatus a = PAID \<longleftrightarrow> p_status p = PAID"
    proof (cases "a = ?a")
      case True
      then have "p_appointmentId p = u_appointmentId uuids" using own ida(1) by simp
      then have "p = ?p" using p_cases fresh_p by blast
      then show ?thesis using True ida(2) idp(2) by simp
    next
      case False
      then have a0: "a \<in> set (appointments db)" using a_cases by simp
      then have "a_id a \<noteq> u_appointmentId uuids" using fresh_a by blast
      then have "p \<noteq> ?p" using own idp(1) by auto
      then have p0: "p \<in> set (payments db)" using p_cases by simp
      show ?thesis using old a0 p0 own unfolding consistent_def by blast
    qed
  qed
  moreover have "distinct (map p_appointmentId (payments db'))"
    using assms(1) fresh_p by (auto simp: store_inv_def pays idp(1))
  ultimately show ?thesis by (simp add: store_inv_def)
qed

lemma createAppointment_outcome:
  "snd (createAppointment stripe now uuids user payload db) = db
   \<or> (\<exists>patientData doctorData.
         reserve now uuids patientData doctorData payload db
           = Inr (snd (createAppointment stripe now uuids user payload db)))"
  by (auto simp: createAppointment_reserve split: sum.splits prod.splits)

lemma createAppointmentWithPayLater_outcome:
  "snd (createAppointmentWithPayLater now uuids user payload db) = db
   \<or> (\<exists>patientData doctorData.
         reserve now uuids patientData doctorData payload db
           = Inr (snd (createAppointmentWithPayLater now uuids user payload db)))"
  by (auto simp: createAppointmentWithPayLater_reserve split: sum.splits prod.splits)

lemma payNow_inv: "store_inv db \<Longrightarrow> store_inv (snd (createAppointment stripe now uuids user payload db))"
  using createAppointment_outcome[of stripe now uuids user payload db] reserve_inv
  by (metis)

lemma payLater_inv: "store_inv db \<Longrightarrow> store_inv (snd (createAppointmentWithPayLater now uuids user payload db))"
  using createAppointmentWithPayLater_outcome[of now uuids user payload db] reserve_inv
  by (metis)


section \<open>The states that the system reaches\<close>

text \<open>
  The requests that reach the gateway. Either operation calls the gateway at most once,
  and the metadata of the request are the identifier of a payment of the store (for a
  booking: of the store that the transaction commits) together with the appointment of
  that payment.
\<close>

lemma initiatePayment_request:
  "(\<exists>e. \<forall>stripe. fst (initiatePaymentForAppointment stripe appointmentId user db) = Inl e)
   \<or> (\<exists>q. (\<exists>p \<in> set (payments db).
               metadata_appointmentId q = p_appointmentId p \<and> metadata_paymentId q = p_id p)
          \<and> (\<forall>stripe. fst (initiatePaymentForAppointment stripe appointmentId user db)
                = (case stripe q of Inl e \<Rightarrow> Inl e | Inr s \<Rightarrow> Inr (session_url s))))"
proof (cases "patient_findUniqueOrThrow db (email user)")
  case (Inl e)
  then have "\<forall>stripe. fst (initiatePaymentForAppointment stripe appointmentId user db) = Inl e"
    by (simp add: initiatePaymentForAppointment_def)
  then show ?thesis by blast
next
  case pt: (Inr patientData)
  show ?thesis
  proof (cases "find (\<lambda>a. a_id a = appointmentId \<and> a_patientId a = pt_id patientData) (appointments db)")
    case None
    then have "\<forall>stripe. fst (initiatePaymentForAppointment stripe appointmentId user db)
                 = Inl (ApiError 400 ''Appointment not found or unauthorized'')"
      using pt by (simp add: initiatePaymentForAppointment_def)
    then show ?thesis by blast
  next
    case ap: (Some appointment)
    show ?thesis
    proof (cases "a_paymentStatus appointment \<noteq> UNPAID")
      case True
      then have "\<forall>stripe. fst (initiatePaymentForAppointment stripe appointmentId user db)
                 = Inl (ApiError 400 ''Payment already completed for this appointment'')"
        using pt ap by (simp add: initiatePaymentForAppointment_def)
      then show ?thesis by blast
    next
      case unpaid: False
      show ?thesis
      proof (cases "a_status appointment = CANCELED")
        case True
        then have "\<forall>stripe. fst (initiatePaymentForAppointment stripe appointmentId user db)
                 = Inl (ApiError 400 ''Cannot pay for cancelled appointment'')"
          using pt ap unpaid by (simp add: initiatePaymentForAppointment_def)
        then show ?thesis by blast
      next
        case live: False
        show ?thesis
        proof (cases "find (\<lambda>d. d_id d = a_doctorId appointment) (doctors db)")
          case None
          then have "\<forall>stripe. fst (initiatePaymentForAppointment stripe appointmentId user db)
                 = Inl TypeError"
            using pt ap unpaid live by (simp add: initiatePaymentForAppointment_def)
          then show ?thesis by blast
        next
          case doc: (Some doctor)
          show ?thesis
          proof (cases "find (\<lambda>p. p_appointmentId p = a_id appointment) (payments db)")
            case None
            then have "\<forall>stripe. fst (initiatePaymentForAppointment stripe appointmentId user db)
                 = Inl TypeError"
              using pt ap unpaid live doc by (simp add: initiatePaymentForAppointment_def)
            then show ?thesis by blast
          next
            case pay: (Some payment)
            let ?q = "\<lparr>customer_email = email user,
                       product_name = ''Appointment with '' @ d_name doctor,
                       unit_amount = p_amount payment * 100,
                       metadata_appointmentId = a_id appointment,
                       metadata_paymentId = p_id payment\<rparr>"
            have own: "payment \<in> set (payments db) \<and> p_appointmentId payment = a_id appointment"
              using pay by (rule find_Some_set)
            have "metadata_appointmentId ?q = p_appointmentId payment
                  \<and> metadata_paymentId ?q = p_id payment"
              using own by simp
            then have "\<exists>p \<in> set (payments db).
                    metadata_appointmentId ?q = p_appointmentId p \<and> metadata_paymentId ?q = p_id p"
              using own by (intro bexI[of _ payment]) simp_all
            moreover have "\<forall>stripe. fst (initiatePaymentForAppointment stripe appointmentId user db)
                          = (case stripe ?q of Inl e \<Rightarrow> Inl e | Inr s \<Rightarrow> Inr (session_url s))"
              using pt ap unpaid live doc pay
              by (simp add: initiatePaymentForAppointment_def split: sum.splits)
            ultimately show ?thesis by blast
          qed
        qed
      qed
    qed
  qed
qed

lemma createAppointment_request:
  "(\<exists>e. \<forall>stripe. createAppointment stripe now uuids user payload db = (Inl e, db))
   \<or> (\<exists>q db'. metadata_appointmentId q = u_appointmentId uuids
          \<and> metadata_paymentId q = u_paymentId uuids
          \<and> (\<exists>p \<in> set (payments db').
                p_appointmentId p = u_appointmentId uuids \<and> p_id p = u_paymentId uuids)
          \<and> (\<forall>stripe. createAppointment stripe now uuids user payload db
                = (case stripe q of Inl e \<Rightarrow> (Inl e, db) | Inr s \<Rightarrow> (Inr (session_url s), db'))))"
proof (cases "bookingChecks db user payload")
  case (Inl e)
  then have "\<forall>stripe. createAppointment stripe now uuids user payload db = (Inl e, db)"
    by (simp add: createAppointment_reserve)
  then show ?thesis by blast
next
  case (Inr pd)
  obtain patientData doctorData where pd: "pd = (patientData, doctorData)" by (cases pd)
  show ?thesis
  proof (cases "reserve now uuids patientData doctorData payload db")
    case (Inl e)
    then have "\<forall>stripe. createAppointment stripe now uuids user payload db = (Inl e, db)"
      using Inr pd by (simp add: createAppointment_reserve)
    then show ?thesis by blast
  next
    case res: (Inr db')
    let ?q = "\<lparr>customer_email = email user,
               product_name = ''Appointment with '' @ d_name doctorData,
               unit_amount = d_appointmentFee doctorData * 100,
               metadata_appointmentId = u_appointmentId uuids,
               metadata_paymentId = u_paymentId uuids\<rparr>"
    have "newPayment now uuids doctorData \<in> set (payments db')"
      using reserve_result(2)[OF res] by simp
    then have "\<exists>p \<in> set (payments db').
                p_appointmentId p = u_appointmentId uuids \<and> p_id p = u_paymentId uuids"
      by (rule bexI[rotated]) (simp add: newPayment_def)
    moreover have "\<forall>stripe. createAppointment stripe now uuids user payload db
                = (case stripe ?q of Inl e \<Rightarrow> (Inl e, db) | Inr s \<Rightarrow> (Inr (session_url s), db'))"
      using Inr pd res by (simp add: createAppointment_reserve split: sum.splits)
    moreover have "metadata_appointmentId ?q = u_appointmentId uuids"
      "metadata_paymentId ?q = u_paymentId uuids" by simp_all
    ultimately show ?thesis by blast
  qed
qed


text \<open>
  The operations keep the row of \<open>doctor_schedules\<close> of every appointment, the payment
  identifiers, and the payment invariant.
\<close>

lemma bound_preserved:
  assumes "bound db"
    and "set (appointments db') \<subseteq> f ` set (appointments db)"
    and "doctor_schedules db' = map g (doctor_schedules db)"
    and "\<And>a. a_doctorId (f a) = a_doctorId a \<and> a_scheduleId (f a) = a_scheduleId a"
    and "\<And>b. ds_doctorId (g b) = ds_doctorId b \<and> ds_scheduleId (g b) = ds_scheduleId b"
  shows "bound db'"
  unfolding bound_def
proof
  fix a' assume "a' \<in> set (appointments db')"
  then obtain a where a: "a \<in> set (appointments db)" "a' = f a" using assms(2) by blast
  then obtain b where b: "b \<in> set (doctor_schedules db)" "bindingOf a b"
    using assms(1) unfolding bound_def by blast
  have "g b \<in> set (doctor_schedules db')" using b(1) by (simp add: assms(3))
  moreover have "bindingOf a' (g b)"
    using b(2) a(2) assms(4)[of a] assms(5)[of b] by (simp add: bindingOf_def)
  ultimately show "\<exists>b \<in> set (doctor_schedules db'). bindingOf a' b" by blast
qed

lemma released_keys:
  "ds_doctorId (released unPaid b) = ds_doctorId b \<and> ds_scheduleId (released unPaid b) = ds_scheduleId b"
  by (simp add: released_def)

lemma swept_bound: "bound db \<Longrightarrow> bound (swept unPaid db)"
  by (rule bound_preserved
        [of db _ "\<lambda>a. if a_id a \<in> set (map a_id unPaid) then a\<lparr>a_status := CANCELED\<rparr> else a"
            "released unPaid"])
     (simp_all add: swept_def released_keys)

lemma paid_bound: "bound db \<Longrightarrow> bound (paid appointmentId paymentId event db)"
  by (rule bound_preserved
        [of db _ "\<lambda>a. if a_id a = appointmentId then a\<lparr>a_paymentStatus := PAID\<rparr> else a" "\<lambda>b. b"])
     (simp_all add: paid_def)

lemma updateAppointmentStatus_shape:
  "snd (updateAppointmentStatus appointmentId st user db) = db
   \<or> snd (updateAppointmentStatus appointmentId st user db)
       = db\<lparr>appointments :=
              map (\<lambda>a. if a_id a = appointmentId then a\<lparr>a_status := st\<rparr> else a) (appointments db)\<rparr>"
  by (auto simp: updateAppointmentStatus_def appointment_update_status_def
        split: option.splits sum.splits if_splits)

lemma status_bound: "bound db \<Longrightarrow> bound (snd (updateAppointmentStatus appointmentId st user db))"
proof -
  assume b: "bound db"
  have "bound (db\<lparr>appointments :=
              map (\<lambda>a. if a_id a = appointmentId then a\<lparr>a_status := st\<rparr> else a) (appointments db)\<rparr>)"
    by (rule bound_preserved
          [OF b, of _ "\<lambda>a. if a_id a = appointmentId then a\<lparr>a_status := st\<rparr> else a" "\<lambda>b. b"])
       simp_all
  then show ?thesis
    using updateAppointmentStatus_shape[of appointmentId st user db] b by auto
qed

lemma reserve_bound:
  assumes "bound db" and res: "reserve now uuids patientData doctorData payload db = Inr db'"
  shows "bound db'"
  unfolding bound_def
proof
  let ?g = "\<lambda>b. if ds_doctorId b = d_id doctorData \<and> ds_scheduleId b = scheduleId payload
                 then b\<lparr>ds_isBooked := True\<rparr> else b"
  have apps: "appointments db' = appointments db @ [newAppointment now uuids patientData doctorData payload]"
    using res by (rule reserve_result(1))
  have rows: "doctor_schedules db' = map ?g (doctor_schedules db)"
    using res by (rule reserve_result(3))
  have row: "\<exists>b \<in> set (doctor_schedules db).
               ds_doctorId b = d_id doctorData \<and> ds_scheduleId b = scheduleId payload"
  proof (rule ccontr)
    assume "\<not> ?thesis"
    then have "\<And>tnx. doctor_schedules tnx = doctor_schedules db \<Longrightarrow>
        doctorSchedules_update tnx (d_id doctorData) (scheduleId payload) True = Inl NotFoundError"
      using doctorSchedules_update_missing by metis
    then show False using res
      by (auto simp: reserve_def appointment_create_def split: sum.splits option.splits if_splits)
  qed
  fix a assume "a \<in> set (appointments db')"
  then consider "a \<in> set (appointments db)"
    | "a = newAppointment now uuids patientData doctorData payload"
    by (auto simp: apps)
  then show "\<exists>b \<in> set (doctor_schedules db'). bindingOf a b"
  proof cases
    case 1
    then obtain b where b: "b \<in> set (doctor_schedules db)" "bindingOf a b"
      using assms(1) unfolding bound_def by blast
    have "?g b \<in> set (doctor_schedules db')" using b(1) by (simp add: rows)
    moreover have "bindingOf a (?g b)" using b(2) by (simp add: bindingOf_def)
    ultimately show ?thesis by blast
  next
    case 2
    from row obtain b where b: "b \<in> set (doctor_schedules db)"
      "ds_doctorId b = d_id doctorData \<and> ds_scheduleId b = scheduleId payload" by blast
    have "?g b \<in> set (doctor_schedules db')" using b(1) by (simp add: rows)
    moreover have "bindingOf a (?g b)" using b(2) 2 by (simp add: bindingOf_def newAppointment_def)
    ultimately show ?thesis by blast
  qed
qed

lemma sweep_bound: "bound db \<Longrightarrow> bound (snd (cancelUnpaidAppointments now db))"
  using cancelTransaction_cases[of "appointment_findMany_unpaid db (now - 30 * 60 * 1000)" db]
        swept_bound[of db "appointment_findMany_unpaid db (now - 30 * 60 * 1000)"]
  by (auto simp: cancelUnpaidAppointments_def)


lemma ids_inv_keep:
  assumes "ids_inv w"
    and pays: "payments db' = map g (filter P (payments (w_store w)))"
    and g: "\<And>p. p_id (g p) = p_id p \<and> p_appointmentId (g p) = p_appointmentId p"
  shows "ids_inv (w\<lparr>w_store := db'\<rparr>)"
proof -
  have same: "p_id \<circ> g = p_id" using g by (intro ext) simp
  have d: "distinct (map p_id (payments db'))"
    using assms(1) by (simp add: ids_inv_def pays same distinct_map_filter)
  have src: "\<And>p'. p' \<in> set (payments db') \<Longrightarrow>
      \<exists>p \<in> set (payments (w_store w)). p_id p' = p_id p \<and> p_appointmentId p' = p_appointmentId p"
  proof -
    fix p' assume "p' \<in> set (payments db')"
    then obtain p where "p \<in> set (payments (w_store w))" "p' = g p" by (auto simp: pays)
    then show "\<exists>p \<in> set (payments (w_store w)). p_id p' = p_id p \<and> p_appointmentId p' = p_appointmentId p"
      using g by auto
  qed
  have dr: "\<forall>p \<in> set (payments db'). p_id p \<in> set (w_drawn w)"
  proof
    fix p' assume "p' \<in> set (payments db')"
    then obtain p where "p \<in> set (payments (w_store w))" "p_id p' = p_id p" using src by blast
    then show "p_id p' \<in> set (w_drawn w)" using assms(1) by (simp add: ids_inv_def)
  qed
  have se: "\<forall>s \<in> set (w_sessions w). snd s \<in> set (w_drawn w)
            \<and> (\<forall>p \<in> set (payments db'). p_id p = snd s \<longrightarrow> p_appointmentId p = fst s)"
  proof (intro ballI conjI impI)
    fix s assume s: "s \<in> set (w_sessions w)"
    show "snd s \<in> set (w_drawn w)" using assms(1) s by (simp add: ids_inv_def)
    fix p' assume "p' \<in> set (payments db')" and eq: "p_id p' = snd s"
    then obtain p where p: "p \<in> set (payments (w_store w))" "p_id p' = p_id p"
      "p_appointmentId p' = p_appointmentId p" using src by blast
    have "p_appointmentId p = fst s"
      using assms(1) s p(1) p(2) eq unfolding ids_inv_def by metis
    then show "p_appointmentId p' = fst s" using p(3) by simp
  qed
  show ?thesis using d dr se by (simp add: ids_inv_def)
qed

lemma ids_inv_same: "ids_inv w \<Longrightarrow> payments db' = payments (w_store w) \<Longrightarrow> ids_inv (w\<lparr>w_store := db'\<rparr>)"
  by (rule ids_inv_keep[of w db' "\<lambda>p. p" "\<lambda>p. True"]) simp_all

lemma ids_inv_drawn: "ids_inv w \<Longrightarrow> ids_inv (w\<lparr>w_drawn := pid # w_drawn w\<rparr>)"
  by (simp add: ids_inv_def)

lemma ids_inv_new:
  assumes "ids_inv w" and fresh: "pid \<notin> set (w_drawn w)"
    and pays: "payments db' = payments (w_store w) @ [p]" and pid: "p_id p = pid"
  shows "ids_inv (w\<lparr>w_store := db', w_drawn := pid # w_drawn w\<rparr>)"
proof -
  have old: "\<forall>q \<in> set (payments (w_store w)). p_id q \<noteq> pid"
    using assms(1) fresh by (auto simp: ids_inv_def)
  have d: "distinct (map p_id (payments db'))"
    using assms(1) old by (auto simp: ids_inv_def pays pid)
  have dr: "\<forall>q \<in> set (payments db'). p_id q \<in> set (pid # w_drawn w)"
    using assms(1) by (auto simp: ids_inv_def pays pid)
  have se: "\<forall>s \<in> set (w_sessions w). snd s \<in> set (pid # w_drawn w)
            \<and> (\<forall>q \<in> set (payments db'). p_id q = snd s \<longrightarrow> p_appointmentId q = fst s)"
  proof (intro ballI conjI impI)
    fix s assume s: "s \<in> set (w_sessions w)"
    have in_drawn: "snd s \<in> set (w_drawn w)" using assms(1) s by (simp add: ids_inv_def)
    then show "snd s \<in> set (pid # w_drawn w)" by simp
    fix q assume q: "q \<in> set (payments db')" and eq: "p_id q = snd s"
    have "q \<noteq> p" using eq in_drawn fresh pid by auto
    then have "q \<in> set (payments (w_store w))" using q by (simp add: pays)
    then show "p_appointmentId q = fst s"
      using assms(1) s eq unfolding ids_inv_def by metis
  qed
  show ?thesis using d dr se by (simp add: ids_inv_def)
qed

lemma ids_inv_checkout:
  assumes "ids_inv w" and p: "p \<in> set (payments (w_store w))"
  shows "ids_inv (w\<lparr>w_sessions := (p_appointmentId p, p_id p) # w_sessions w\<rparr>)"
proof -
  have d: "distinct (map p_id (payments (w_store w)))" using assms(1) by (simp add: ids_inv_def)
  have own: "\<forall>q \<in> set (payments (w_store w)). p_id q = p_id p \<longrightarrow> p_appointmentId q = p_appointmentId p"
  proof (intro ballI impI)
    fix q assume "q \<in> set (payments (w_store w))" "p_id q = p_id p"
    then have "q = p" using d p by (metis distinct_map inj_onD)
    then show "p_appointmentId q = p_appointmentId p" by simp
  qed
  have "p_id p \<in> set (w_drawn w)" using assms(1) p by (simp add: ids_inv_def)
  then show ?thesis using assms(1) own by (simp add: ids_inv_def)
qed

lemma paid_inv:
  assumes "store_inv db"
    and belongs: "\<And>p. p \<in> set (payments db) \<Longrightarrow> p_id p = paymentId \<Longrightarrow> p_appointmentId p = appointmentId"
    and ex: "\<exists>p \<in> set (payments db). p_id p = paymentId"
  shows "store_inv (paid appointmentId paymentId event db)"
proof -
  let ?fa = "\<lambda>a. if a_id a = appointmentId then a\<lparr>a_paymentStatus := PAID\<rparr> else a"
  let ?fp = "\<lambda>p. if p_id p = paymentId
                   then p\<lparr>p_status := PAID, p_paymentGatewayData := Some (ev_session event),
                          p_stripeEventId := Some (ev_id event)\<rparr>
                   else p"
  have apps: "appointments (paid appointmentId paymentId event db) = map ?fa (appointments db)"
    by (simp add: paid_def)
  have pays: "payments (paid appointmentId paymentId event db) = map ?fp (payments db)"
    by (simp add: paid_def)
  have old: "consistent db" and dist: "distinct (map p_appointmentId (payments db))"
    using assms(1) by (simp_all add: store_inv_def)
  from ex obtain x where x: "x \<in> set (payments db)" "p_id x = paymentId" by blast
  have xa: "p_appointmentId x = appointmentId" using x by (rule belongs)
  have only: "\<And>p. p \<in> set (payments db) \<Longrightarrow> p_appointmentId p = appointmentId \<Longrightarrow> p = x"
  proof -
    fix p assume "p \<in> set (payments db)" "p_appointmentId p = appointmentId"
    then show "p = x"
      using dist x(1) xa by (metis distinct_map inj_onD)
  qed
  have "consistent (paid appointmentId paymentId event db)"
    unfolding consistent_def
  proof (intro ballI impI)
    fix a' p'
    assume a': "a' \<in> set (appointments (paid appointmentId paymentId event db))"
      and p': "p' \<in> set (payments (paid appointmentId paymentId event db))"
      and own: "p_appointmentId p' = a_id a'"
    from a' have "a' \<in> ?fa ` set (appointments db)" by (simp add: apps)
    then obtain a where a: "a \<in> set (appointments db)" "a' = ?fa a" by (rule imageE)
    from p' have "p' \<in> ?fp ` set (payments db)" by (simp add: pays)
    then obtain p where p: "p \<in> set (payments db)" "p' = ?fp p" by (rule imageE)
    have ida: "a_id a' = a_id a" using a(2) by simp
    have idp: "p_appointmentId p' = p_appointmentId p" using p(2) by simp
    have own0: "p_appointmentId p = a_id a" using own ida idp by simp
    show "a_paymentStatus a' = PAID \<longleftrightarrow> p_status p' = PAID"
    proof (cases "a_id a = appointmentId")
      case True
      then have "p = x" using own0 p(1) only by simp
      then have "p_id p = paymentId" using x(2) by simp
      then have "p_status p' = PAID" using p(2) by simp
      moreover have "a_paymentStatus a' = PAID" using a(2) True by simp
      ultimately show ?thesis by simp
    next
      case False
      then have "p_id p \<noteq> paymentId" using belongs[OF p(1)] own0 by auto
      then have "p' = p" using p(2) by simp
      moreover have "a' = a" using a(2) False by simp
      ultimately show ?thesis using old a(1) p(1) own0 unfolding consistent_def by blast
    qed
  qed
  moreover have "distinct (map p_appointmentId (payments (paid appointmentId paymentId event db)))"
  proof -
    have same: "p_appointmentId \<circ> ?fp = p_appointmentId" by (rule ext) simp
    have "map p_appointmentId (map ?fp (payments db)) = map p_appointmentId (payments db)"
      by (simp only: map_map same)
    then show ?thesis using dist by (simp only: pays)
  qed
  ultimately show ?thesis by (simp add: store_inv_def)
qed


lemma paid_ids:
  "ids_inv w \<Longrightarrow> ids_inv (w\<lparr>w_store := paid appointmentId paymentId event (w_store w)\<rparr>)"
  by (rule ids_inv_keep
        [of w _ "\<lambda>p. if p_id p = paymentId
                   then p\<lparr>p_status := PAID, p_paymentGatewayData := Some (ev_session event),
                          p_stripeEventId := Some (ev_id event)\<rparr>
                   else p" "\<lambda>p. True"])
     (simp_all add: paid_def)

lemma swept_ids: "ids_inv w \<Longrightarrow> ids_inv (w\<lparr>w_store := swept unPaid (w_store w)\<rparr>)"
  by (rule ids_inv_keep[of w _ "\<lambda>p. p" "\<lambda>p. p_appointmentId p \<notin> set (map a_id unPaid)"])
     (simp_all add: swept_def)

lemma event_inv:
  assumes "world_inv w" and "fromSession event w"
  shows "world_inv (w\<lparr>w_store := snd (handleStripeWebhookEvent_service event (w_store w))\<rparr>)"
proof -
  let ?db = "w_store w"
  have inv: "store_inv ?db" "bound ?db" "ids_inv w" using assms(1) by (simp_all add: world_inv_def)
  from service_cases[of event ?db] show ?thesis
  proof
    assume "fst (handleStripeWebhookEvent_service event ?db) \<noteq> Inr PaymentPaid
      \<and> snd (handleStripeWebhookEvent_service event ?db) = ?db"
    then show ?thesis using assms(1) by simp
  next
    assume "\<exists>appointmentId paymentId.
         ev_type event = SessionCompleted
       \<and> ev_appointmentId event = Some appointmentId \<and> ev_paymentId event = Some paymentId
       \<and> (\<exists>a \<in> set (appointments ?db). a_id a = appointmentId)
       \<and> (\<exists>p \<in> set (payments ?db). p_id p = paymentId)
       \<and> (\<forall>p \<in> set (payments ?db). p_stripeEventId p \<noteq> Some (ev_id event))
       \<and> handleStripeWebhookEvent_service event ?db
           = (Inr PaymentPaid, paid appointmentId paymentId event ?db)"
    then obtain appointmentId paymentId where
      md: "ev_appointmentId event = Some appointmentId" "ev_paymentId event = Some paymentId"
      and ex: "\<exists>p \<in> set (payments ?db). p_id p = paymentId"
      and run: "handleStripeWebhookEvent_service event ?db
           = (Inr PaymentPaid, paid appointmentId paymentId event ?db)"
      by blast
    have session: "(appointmentId, paymentId) \<in> set (w_sessions w)"
      using assms(2) md by (simp add: fromSession_def)
    have belongs: "\<And>p. p \<in> set (payments ?db) \<Longrightarrow> p_id p = paymentId \<Longrightarrow> p_appointmentId p = appointmentId"
    proof -
      fix p assume "p \<in> set (payments ?db)" "p_id p = paymentId"
      then show "p_appointmentId p = appointmentId"
        using inv(3) session unfolding ids_inv_def by fastforce
    qed
    have "store_inv (paid appointmentId paymentId event ?db)"
      using inv(1) belongs ex by (rule paid_inv)
    moreover have "bound (paid appointmentId paymentId event ?db)"
      using inv(2) by (rule paid_bound)
    moreover have "ids_inv (w\<lparr>w_store := paid appointmentId paymentId event ?db\<rparr>)"
      using inv(3) by (rule paid_ids)
    ultimately show ?thesis by (simp add: world_inv_def run)
  qed
qed

lemma sweep_world_inv:
  assumes "world_inv w"
  shows "world_inv (w\<lparr>w_store := snd (cancelUnpaidAppointments now (w_store w))\<rparr>)"
proof -
  let ?db = "w_store w"
  let ?sel = "appointment_findMany_unpaid ?db (now - 30 * 60 * 1000)"
  have inv: "store_inv ?db" "bound ?db" "ids_inv w" using assms(1) by (simp_all add: world_inv_def)
  have s: "store_inv (snd (cancelUnpaidAppointments now ?db))" using inv(1) by (rule sweep_inv)
  have b: "bound (snd (cancelUnpaidAppointments now ?db))" using inv(2) by (rule sweep_bound)
  have "snd (cancelUnpaidAppointments now ?db) = swept ?sel ?db
      \<or> snd (cancelUnpaidAppointments now ?db) = ?db"
    using cancelTransaction_cases[of ?sel ?db] by (auto simp: cancelUnpaidAppointments_def)
  then have "ids_inv (w\<lparr>w_store := snd (cancelUnpaidAppointments now ?db)\<rparr>)"
  proof
    assume "snd (cancelUnpaidAppointments now ?db) = swept ?sel ?db"
    then show ?thesis using swept_ids[OF inv(3), of ?sel] by simp
  next
    assume "snd (cancelUnpaidAppointments now ?db) = ?db"
    then show ?thesis using inv(3) by simp
  qed
  then show ?thesis using s b by (simp add: world_inv_def)
qed

lemma status_world_inv:
  assumes "world_inv w"
  shows "world_inv (w\<lparr>w_store := snd (updateAppointmentStatus appointmentId st user (w_store w))\<rparr>)"
proof -
  let ?db = "w_store w"
  have inv: "store_inv ?db" "bound ?db" "ids_inv w" using assms(1) by (simp_all add: world_inv_def)
  have s: "store_inv (snd (updateAppointmentStatus appointmentId st user ?db))"
    using inv(1) by (rule status_inv)
  have b: "bound (snd (updateAppointmentStatus appointmentId st user ?db))"
    using inv(2) by (rule status_bound)
  have "payments (snd (updateAppointmentStatus appointmentId st user ?db)) = payments ?db"
    using updateAppointmentStatus_shape[of appointmentId st user ?db] by auto
  then have "ids_inv (w\<lparr>w_store := snd (updateAppointmentStatus appointmentId st user ?db)\<rparr>)"
    using inv(3) by (intro ids_inv_same) simp_all
  then show ?thesis using s b by (simp add: world_inv_def)
qed

lemma booking_world_inv:
  assumes "world_inv w" and fresh: "u_paymentId uuids \<notin> set (w_drawn w)"
    and out: "db' = w_store w
              \<or> (\<exists>patientData doctorData.
                    reserve now uuids patientData doctorData payload (w_store w) = Inr db')"
  shows "world_inv (w\<lparr>w_store := db', w_drawn := u_paymentId uuids # w_drawn w\<rparr>)"
proof -
  let ?db = "w_store w"
  have inv: "store_inv ?db" "bound ?db" "ids_inv w" using assms(1) by (simp_all add: world_inv_def)
  from out show ?thesis
  proof
    assume same: "db' = ?db"
    have "ids_inv (w\<lparr>w_drawn := u_paymentId uuids # w_drawn w\<rparr>)" using inv(3) by (rule ids_inv_drawn)
    then have "ids_inv (w\<lparr>w_store := db', w_drawn := u_paymentId uuids # w_drawn w\<rparr>)"
      by (simp add: same ids_inv_def)
    then show ?thesis using inv(1,2) by (simp add: world_inv_def same)
  next
    assume "\<exists>patientData doctorData. reserve now uuids patientData doctorData payload ?db = Inr db'"
    then obtain patientData doctorData where
      res: "reserve now uuids patientData doctorData payload ?db = Inr db'" by blast
    have s: "store_inv db'" using inv(1) res by (rule reserve_inv)
    have b: "bound db'" using inv(2) res by (rule reserve_bound)
    have "ids_inv (w\<lparr>w_store := db', w_drawn := u_paymentId uuids # w_drawn w\<rparr>)"
      using inv(3) fresh reserve_result(2)[OF res]
      by (rule ids_inv_new) (simp add: newPayment_def)
    then show ?thesis using s b by (simp add: world_inv_def)
  qed
qed

lemma reachable_inv: "reachable w \<Longrightarrow> world_inv w"
proof (induction rule: reachable.induct)
  case (initial db)
  then show ?case by (simp add: world_inv_def store_inv_def consistent_def bound_def ids_inv_def)
next
  case (payNow w uuids stripe now user payload)
  show ?case
    using payNow.IH payNow.hyps(2)
          createAppointment_outcome[of stripe now uuids user payload "w_store w"]
    by (rule booking_world_inv)
next
  case (payLater w uuids now user payload)
  show ?case
    using payLater.IH payLater.hyps(2)
          createAppointmentWithPayLater_outcome[of now uuids user payload "w_store w"]
    by (rule booking_world_inv)
next
  case (status w appointmentId st user)
  then show ?case by (simp add: status_world_inv)
next
  case (checkout w p)
  then show ?case using ids_inv_checkout[of w p] by (simp add: world_inv_def)
next
  case (event w ev)
  then show ?case by (simp add: event_inv)
next
  case (sweep w now)
  then show ?case by (simp add: sweep_world_inv)
qed


lemma world1_reachable: "reachable world1"
proof -
  have "reachable \<lparr>w_store = db0, w_sessions = [], w_drawn = []\<rparr>"
    by (rule reachable.initial) (simp_all add: db0_def)
  then have "reachable (\<lparr>w_store = db0, w_sessions = [], w_drawn = []\<rparr>
      \<lparr>w_store := snd (createAppointmentWithPayLater 0 uuidsP userP payloadS
                         (w_store \<lparr>w_store = db0, w_sessions = [], w_drawn = []\<rparr>)),
       w_drawn := u_paymentId uuidsP # w_drawn \<lparr>w_store = db0, w_sessions = [], w_drawn = []\<rparr>\<rparr>)"
    by (rule reachable.payLater) simp
  moreover have "u_paymentId uuidsP = ''pay1''" by (simp add: uuidsP_def)
  ultimately have booked: "reachable \<lparr>w_store = db1, w_sessions = [], w_drawn = [''pay1'']\<rparr>"
    by (simp add: payLater_example)
  have "paymentP \<in> set (payments (w_store \<lparr>w_store = db1, w_sessions = [], w_drawn = [''pay1'']\<rparr>))"
    by (simp add: db1_def)
  with booked have "reachable (\<lparr>w_store = db1, w_sessions = [], w_drawn = [''pay1'']\<rparr>
      \<lparr>w_sessions := (p_appointmentId paymentP, p_id paymentP)
                      # w_sessions \<lparr>w_store = db1, w_sessions = [], w_drawn = [''pay1'']\<rparr>\<rparr>)"
    by (rule reachable.checkout)
  then show ?thesis by (simp add: world1_def paymentP_def)
qed

text \<open>
  C2. In every state that the system reaches from a store without appointments and
  payments, an appointment and its payment record agree on being PAID; and from such a
  state the two operations that write payment fields or remove payment records keep it
  so: the sweep, and the handling of an event that the gateway delivers, which writes both
  fields in one transaction.
\<close>

theorem payment_invariant:
  "reachable w \<Longrightarrow>
     consistent (w_store w)
     \<and> consistent (snd (cancelUnpaidAppointments now (w_store w)))
     \<and> (fromSession event w \<longrightarrow> consistent (snd (handleStripeWebhookEvent_service event (w_store w))))"
proof (intro conjI impI)
  assume r: "reachable w"
  show "consistent (w_store w)"
    using reachable_inv[OF r] by (simp add: world_inv_def store_inv_def)
  show "consistent (snd (cancelUnpaidAppointments now (w_store w)))"
    using reachable_inv[OF reachable.sweep[OF r, of now]] by (simp add: world_inv_def store_inv_def)
  assume "fromSession event w"
  then show "consistent (snd (handleStripeWebhookEvent_service event (w_store w)))"
    using reachable_inv[OF reachable.event[OF r]] by (simp add: world_inv_def store_inv_def)
qed

theorem payment_invariant_witness:
  "reachable world1
   \<and> fromSession event1 world1
   \<and> consistent db1
   \<and> consistent (paid ''a1'' ''pay1'' event1 db1)
   \<and> a_paymentStatus (hd (appointments (paid ''a1'' ''pay1'' event1 db1))) = PAID
   \<and> p_status (hd (payments (paid ''a1'' ''pay1'' event1 db1))) = PAID"
proof -
  have e: "fromSession event1 world1" by (simp add: fromSession_def example_defs)
  have "consistent (w_store world1)
      \<and> consistent (snd (handleStripeWebhookEvent_service event1 (w_store world1)))"
    using payment_invariant [OF world1_reachable, of 0 event1] e by blast
  then have "consistent db1 \<and> consistent (paid ''a1'' ''pay1'' event1 db1)"
    by (simp add: world1_def paid_example)
  then show ?thesis
    using world1_reachable e by (simp add: paid_def example_defs)
qed




section \<open>Booking a slot that is taken\<close>

lemma createAppointment_phases:
  "createAppointment stripe now uuids user payload db =
     (case bookingChecks db user payload of
        Inl e \<Rightarrow> (Inl e, db)
      | Inr (patientData, doctorData) \<Rightarrow>
          payNowTransaction stripe now uuids user patientData doctorData payload db)"
  by (simp add: createAppointment_def payNowTransaction_def split: sum.splits prod.splits)

lemma createAppointmentWithPayLater_phases:
  "createAppointmentWithPayLater now uuids user payload db =
     (case bookingChecks db user payload of
        Inl e \<Rightarrow> (Inl e, db)
      | Inr (patientData, doctorData) \<Rightarrow>
          payLaterTransaction now uuids patientData doctorData payload db)"
  by (simp add: createAppointmentWithPayLater_def payLaterTransaction_def split: sum.splits prod.splits)

lemma payNowTransaction_reserve:
  "payNowTransaction stripe now uuids user patientData doctorData payload db =
     (case reserve now uuids patientData doctorData payload db of
        Inl e \<Rightarrow> (Inl e, db)
      | Inr tnx3 \<Rightarrow>
          (case stripe \<lparr>customer_email = email user,
                         product_name = ''Appointment with '' @ d_name doctorData,
                         unit_amount = d_appointmentFee doctorData * 100,
                         metadata_appointmentId = u_appointmentId uuids,
                         metadata_paymentId = u_paymentId uuids\<rparr> of
             Inl e \<Rightarrow> (Inl e, db)
           | Inr session \<Rightarrow> (Inr (session_url session), tnx3)))"
  by (simp add: payNowTransaction_def reserve_def transaction_def split: sum.splits)

lemma payLaterTransaction_reserve:
  "payLaterTransaction now uuids patientData doctorData payload db =
     (case reserve now uuids patientData doctorData payload db of
        Inl e \<Rightarrow> (Inl e, db)
      | Inr tnx3 \<Rightarrow> (Inr (newAppointment now uuids patientData doctorData payload), tnx3))"
  by (simp add: payLaterTransaction_def reserve_def transaction_def split: sum.splits)

lemma find_key_flagged:
  "find (\<lambda>b. ds_doctorId b = d \<and> ds_scheduleId b = s)
        (map (\<lambda>b. b\<lparr>ds_isBooked := flag b\<rparr>) rows) = None
   \<longleftrightarrow> find (\<lambda>b. ds_doctorId b = d \<and> ds_scheduleId b = s) rows = None"
  by (auto simp: find_None_iff)

lemma reserve_flagged:
  "(case reserve now uuids patientData doctorData payload (flagged flag db) of
      Inl e \<Rightarrow> Inl e | Inr tnx3 \<Rightarrow> Inr ())
   = (case reserve now uuids patientData doctorData payload db of
      Inl e \<Rightarrow> Inl e | Inr tnx3 \<Rightarrow> Inr ())"
proof (cases "find (\<lambda>x. a_id x = u_appointmentId uuids \<or> a_scheduleId x = scheduleId payload)
                (appointments db)")
  case (Some x)
  then show ?thesis
    by (simp add: reserve_def flagged_def appointment_create_def newAppointment_def)
next
  case free: None
  show ?thesis
  proof (cases "find (\<lambda>b. ds_doctorId b = d_id doctorData \<and> ds_scheduleId b = scheduleId payload)
                  (doctor_schedules db)")
    case None
    then have "find (\<lambda>b. ds_doctorId b = d_id doctorData \<and> ds_scheduleId b = scheduleId payload)
                 (map (\<lambda>b. b\<lparr>ds_isBooked := flag b\<rparr>) (doctor_schedules db)) = None"
      by (simp add: find_key_flagged)
    then show ?thesis using free None
      by (simp add: reserve_def flagged_def appointment_create_def newAppointment_def
            doctorSchedules_update_def)
  next
    case (Some b)
    then have "find (\<lambda>b. ds_doctorId b = d_id doctorData \<and> ds_scheduleId b = scheduleId payload)
                 (map (\<lambda>b. b\<lparr>ds_isBooked := flag b\<rparr>) (doctor_schedules db)) \<noteq> None"
      by (simp add: find_key_flagged)
    then obtain b' where "find (\<lambda>b. ds_doctorId b = d_id doctorData \<and> ds_scheduleId b = scheduleId payload)
                 (map (\<lambda>b. b\<lparr>ds_isBooked := flag b\<rparr>) (doctor_schedules db)) = Some b'"
      by auto
    then show ?thesis using free Some
      by (simp add: reserve_def flagged_def appointment_create_def newAppointment_def
            doctorSchedules_update_def payment_create_def split: option.splits)
  qed
qed

lemma payLaterTransaction_flagged:
  "fst (payLaterTransaction now uuids patientData doctorData payload (flagged flag db))
     = fst (payLaterTransaction now uuids patientData doctorData payload db)"
  using reserve_flagged[of now uuids patientData doctorData payload flag db]
  by (simp add: payLaterTransaction_reserve split: sum.splits)

lemma payNowTransaction_flagged:
  "fst (payNowTransaction stripe now uuids user patientData doctorData payload (flagged flag db))
     = fst (payNowTransaction stripe now uuids user patientData doctorData payload db)"
  using reserve_flagged[of now uuids patientData doctorData payload flag db]
  by (simp add: payNowTransaction_reserve split: sum.splits)

text \<open>
  C3 (as amended). Both bookings look for the doctor's schedule row with
  \<open>isBooked: false\<close> in the reads before they open their transaction, and the transaction
  does not read the flag: whether it succeeds, and the error it fails with, are the same
  whatever the flags of the rows are. When every row of the doctor and slot is booked (or
  there is none), either booking fails with the record-not-found error of the database
  client, which the global error handler answers with status 500, and leaves the store as
  it is; so after one patient has booked a slot, with deferred or with immediate payment,
  the next booking of that slot fails that way.
\<close>

theorem booking_taken_slot:
  "createAppointment stripe now uuids user payload db =
     (case bookingChecks db user payload of
        Inl e \<Rightarrow> (Inl e, db)
      | Inr (patientData, doctorData) \<Rightarrow>
          payNowTransaction stripe now uuids user patientData doctorData payload db)
   \<and> createAppointmentWithPayLater now uuids user payload db =
     (case bookingChecks db user payload of
        Inl e \<Rightarrow> (Inl e, db)
      | Inr (patientData, doctorData) \<Rightarrow>
          payLaterTransaction now uuids patientData doctorData payload db)
   \<and> fst (payNowTransaction stripe now uuids user patient doctor payload (flagged flag db))
       = fst (payNowTransaction stripe now uuids user patient doctor payload db)
   \<and> fst (payLaterTransaction now uuids patient doctor payload (flagged flag db))
       = fst (payLaterTransaction now uuids patient doctor payload db)
   \<and> ((\<forall>b \<in> set (doctor_schedules db).
        ds_doctorId b = doctorId payload \<and> ds_scheduleId b = scheduleId payload \<longrightarrow> ds_isBooked b)
     \<longrightarrow> createAppointment stripe now uuids user payload db = (Inl NotFoundError, db)
       \<and> createAppointmentWithPayLater now uuids user payload db = (Inl NotFoundError, db))
   \<and> er_statusCode (globalErrorHandler NotFoundError) = 500
   \<and> \<not> er_success (globalErrorHandler NotFoundError)
   \<and> (fst (createAppointmentWithPayLater now1 uuids1 user1 payload db) = Inr booked
     \<longrightarrow> createAppointmentWithPayLater now uuids user payload
           (snd (createAppointmentWithPayLater now1 uuids1 user1 payload db))
         = (Inl NotFoundError, snd (createAppointmentWithPayLater now1 uuids1 user1 payload db))
       \<and> createAppointment stripe now uuids user payload
           (snd (createAppointmentWithPayLater now1 uuids1 user1 payload db))
         = (Inl NotFoundError, snd (createAppointmentWithPayLater now1 uuids1 user1 payload db)))
   \<and> (fst (createAppointment stripe1 now1 uuids1 user1 payload db) = Inr url1
     \<longrightarrow> createAppointmentWithPayLater now uuids user payload
           (snd (createAppointment stripe1 now1 uuids1 user1 payload db))
         = (Inl NotFoundError, snd (createAppointment stripe1 now1 uuids1 user1 payload db))
       \<and> createAppointment stripe now uuids user payload
           (snd (createAppointment stripe1 now1 uuids1 user1 payload db))
         = (Inl NotFoundError, snd (createAppointment stripe1 now1 uuids1 user1 payload db)))"
proof (intro conjI impI)
  show "createAppointment stripe now uuids user payload db =
     (case bookingChecks db user payload of
        Inl e \<Rightarrow> (Inl e, db)
      | Inr (patientData, doctorData) \<Rightarrow>
          payNowTransaction stripe now uuids user patientData doctorData payload db)"
    by (rule createAppointment_phases)
  show "createAppointmentWithPayLater now uuids user payload db =
     (case bookingChecks db user payload of
        Inl e \<Rightarrow> (Inl e, db)
      | Inr (patientData, doctorData) \<Rightarrow>
          payLaterTransaction now uuids patientData doctorData payload db)"
    by (rule createAppointmentWithPayLater_phases)
  show "fst (payNowTransaction stripe now uuids user patient doctor payload (flagged flag db))
       = fst (payNowTransaction stripe now uuids user patient doctor payload db)"
    by (rule payNowTransaction_flagged)
  show "fst (payLaterTransaction now uuids patient doctor payload (flagged flag db))
       = fst (payLaterTransaction now uuids patient doctor payload db)"
    by (rule payLaterTransaction_flagged)
  show "er_statusCode (globalErrorHandler NotFoundError) = 500"
    by (simp add: globalErrorHandler_def INTERNAL_SERVER_ERROR_def)
  show "\<not> er_success (globalErrorHandler NotFoundError)"
    by (simp add: globalErrorHandler_def)
next
  assume "\<forall>b \<in> set (doctor_schedules db).
        ds_doctorId b = doctorId payload \<and> ds_scheduleId b = scheduleId payload \<longrightarrow> ds_isBooked b"
  then show "createAppointment stripe now uuids user payload db = (Inl NotFoundError, db)"
    and "createAppointmentWithPayLater now uuids user payload db = (Inl NotFoundError, db)"
    by (rule taken_fails)+
next
  assume "fst (createAppointmentWithPayLater now1 uuids1 user1 payload db) = Inr booked"
  then have booked: "\<forall>b \<in> set (doctor_schedules (snd (createAppointmentWithPayLater now1 uuids1 user1 payload db))).
        ds_doctorId b = doctorId payload \<and> ds_scheduleId b = scheduleId payload \<longrightarrow> ds_isBooked b"
    by (rule createAppointmentWithPayLater_booked)
  show "createAppointmentWithPayLater now uuids user payload
           (snd (createAppointmentWithPayLater now1 uuids1 user1 payload db))
         = (Inl NotFoundError, snd (createAppointmentWithPayLater now1 uuids1 user1 payload db))"
    using booked by (rule taken_fails(2))
  show "createAppointment stripe now uuids user payload
           (snd (createAppointmentWithPayLater now1 uuids1 user1 payload db))
         = (Inl NotFoundError, snd (createAppointmentWithPayLater now1 uuids1 user1 payload db))"
    using booked by (rule taken_fails(1))
next
  assume "fst (createAppointment stripe1 now1 uuids1 user1 payload db) = Inr url1"
  then have booked: "\<forall>b \<in> set (doctor_schedules (snd (createAppointment stripe1 now1 uuids1 user1 payload db))).
        ds_doctorId b = doctorId payload \<and> ds_scheduleId b = scheduleId payload \<longrightarrow> ds_isBooked b"
    by (rule createAppointment_booked)
  show "createAppointmentWithPayLater now uuids user payload
           (snd (createAppointment stripe1 now1 uuids1 user1 payload db))
         = (Inl NotFoundError, snd (createAppointment stripe1 now1 uuids1 user1 payload db))"
    using booked by (rule taken_fails(2))
  show "createAppointment stripe now uuids user payload
           (snd (createAppointment stripe1 now1 uuids1 user1 payload db))
         = (Inl NotFoundError, snd (createAppointment stripe1 now1 uuids1 user1 payload db))"
    using booked by (rule taken_fails(1))
qed

theorem booking_taken_slot_witness:
  "createAppointmentWithPayLater 5 uuidsQ userQ payloadS db1 = (Inl NotFoundError, db1)
   \<and> er_statusCode (globalErrorHandler NotFoundError) = 500"
proof -
  have "fst (createAppointmentWithPayLater 0 uuidsP userP payloadS db0) = Inr appointmentP"
    by (simp add: payLater_example)
  then have "createAppointmentWithPayLater 5 uuidsQ userQ payloadS
           (snd (createAppointmentWithPayLater 0 uuidsP userP payloadS db0))
         = (Inl NotFoundError, snd (createAppointmentWithPayLater 0 uuidsP userP payloadS db0))
       \<and> er_statusCode (globalErrorHandler NotFoundError) = 500"
    using booking_taken_slot
      [where db = db0 and payload = payloadS and ?now1.0 = 0 and ?uuids1.0 = uuidsP
         and ?user1.0 = userP and booked = appointmentP and now = 5 and uuids = uuidsQ and user = userQ]
    by blast
  then show ?thesis by (simp add: payLater_example)
qed

theorem booking_conflict_counterexample:
  "createAppointmentWithPayLater 5 uuidsQ userQ payloadS
       (snd (createAppointmentWithPayLater 0 uuidsP userP payloadS db0))
     = (Inl NotFoundError, db1)
   \<and> er_statusCode (globalErrorHandler NotFoundError) = 500
   \<and> er_statusCode (globalErrorHandler NotFoundError) \<noteq> CONFLICT
   \<and> bookingChecks db0 userQ payloadS = Inr (patientQ, doctorD)
   \<and> createAppointmentWithPayLater 0 uuidsP userP payloadS db0 = (Inr appointmentP, db1)
   \<and> payLaterTransaction 5 uuidsQ patientQ doctorD payloadS db1 = (Inl UniqueConstraintError, db1)
   \<and> er_statusCode (globalErrorHandler UniqueConstraintError) \<noteq> CONFLICT"
  by (simp add: store_defs booking_defs example_defs globalErrorHandler_def
        INTERNAL_SERVER_ERROR_def CONFLICT_def payLaterTransaction_def)

section \<open>The sweep and a completing event on one appointment\<close>

text \<open>
  C4. The sweep reads the stale appointments once and then cancels all of them in one
  transaction that does not read \<open>paymentStatus\<close> again. Take the state \<open>world1\<close>,
  which the system reaches (lemma \<open>world1_reachable\<close>): the first patient's unpaid
  booking of time 0 with its checkout session. A run of the sweep at minute 31 selects the
  appointment; the event of the completed session is handled before the transaction of
  the sweep starts and marks appointment and payment record PAID; the transaction of the
  sweep then cancels the appointment, deletes its payment record and frees its slot. The
  appointment ends PAID and CANCELED, without a payment record.
\<close>

theorem sweep_event_race:
  "appointment_findMany_unpaid db1 (1860000 - 30 * 60 * 1000) = [appointmentP]
   \<and> handleStripeWebhookEvent_service event1 db1
       = (Inr PaymentPaid, paid ''a1'' ''pay1'' event1 db1)
   \<and> appointments (paid ''a1'' ''pay1'' event1 db1) = [appointmentP\<lparr>a_paymentStatus := PAID\<rparr>]
   \<and> cancelTransaction [appointmentP] (paid ''a1'' ''pay1'' event1 db1)
       = (Inr (), db0\<lparr>appointments := [appointmentP\<lparr>a_status := CANCELED, a_paymentStatus := PAID\<rparr>]\<rparr>)"
  by (simp add: store_defs booking_defs example_defs paid_def)

end
